theory Spec2Isabelle
  imports Main "HOL-Library.Monad_Syntax"
begin

section \<open>Text, character classes and the string primitives the script uses\<close>

text \<open>
  The script \<^verbatim>\<open>scripts/fix-test-waits.py\<close> rewrites the text of Playwright test
  files with five regular-expression rules.  A file's text is a \<^typ>\<open>string\<close>, so a
  character is a code point below 256.  The classes below are those of Python's
  \<^verbatim>\<open>re\<close> module for \<^verbatim>\<open>str\<close> patterns on that range: \<^verbatim>\<open>\s\<close> (also what
  \<^verbatim>\<open>str.strip()\<close> removes), \<^verbatim>\<open>\d\<close> and \<^verbatim>\<open>\w\<close> (alphanumeric or underscore).
\<close>

definition is_space :: "char \<Rightarrow> bool" where
  "is_space c =
     (let n = (of_char c :: nat)
      in (9 \<le> n \<and> n \<le> 13) \<or> (28 \<le> n \<and> n \<le> 32) \<or> n = 133 \<or> n = 160)"

definition is_digit :: "char \<Rightarrow> bool" where
  "is_digit c = (let n = (of_char c :: nat) in 48 \<le> n \<and> n \<le> 57)"

definition is_word :: "char \<Rightarrow> bool" where
  "is_word c =
     (let n = (of_char c :: nat)
      in (48 \<le> n \<and> n \<le> 57) \<or> (65 \<le> n \<and> n \<le> 90) \<or> n = 95 \<or> (97 \<le> n \<and> n \<le> 122)
         \<or> n = 170 \<or> n = 178 \<or> n = 179 \<or> n = 181 \<or> n = 185 \<or> n = 186
         \<or> (188 \<le> n \<and> n \<le> 190) \<or> (192 \<le> n \<and> n \<le> 214)
         \<or> (216 \<le> n \<and> n \<le> 246) \<or> 248 \<le> n)"

text \<open>The characters that cannot be written inside a string literal.\<close>

abbreviation (input) sq :: string where "sq \<equiv> [CHR 0x27]"
abbreviation (input) bs :: string where "bs \<equiv> [CHR 0x5C]"
abbreviation (input) nl :: string where "nl \<equiv> [CHR 0x0A]"

definition is_quote :: "char \<Rightarrow> bool" where
  "is_quote c = (c = CHR 0x27 \<or> c = CHR 0x22)"

text \<open>
  \<open>lit p s\<close> matches the literal \<open>p\<close> at the start of \<open>s\<close> and returns what follows;
  \<open>startswith\<close>, \<open>isin\<close> (Python's \<^verbatim>\<open>p in s\<close>), \<open>endswith\<close> and \<open>strip\<close> are
  the \<^verbatim>\<open>str\<close> operations of the same names.
\<close>

fun lit :: "string \<Rightarrow> string \<Rightarrow> string option" where
  "lit [] s = Some s"
| "lit (p # ps) [] = None"
| "lit (p # ps) (c # cs) = (if p = c then lit ps cs else None)"

definition startswith :: "string \<Rightarrow> string \<Rightarrow> bool" where
  "startswith s p = (lit p s \<noteq> None)"

fun isin :: "string \<Rightarrow> string \<Rightarrow> bool" where
  "isin p [] = (p = [])"
| "isin p (c # cs) = (startswith (c # cs) p \<or> isin p cs)"

definition endswith :: "string \<Rightarrow> string \<Rightarrow> bool" where
  "endswith s p = startswith (rev s) (rev p)"

definition strip :: "string \<Rightarrow> string" where
  "strip s = rev (dropWhile is_space (rev (dropWhile is_space s)))"

text \<open>\<^verbatim>\<open>content.split('\n')\<close> and \<^verbatim>\<open>'\n'.join(new_lines)\<close>.\<close>

fun split_nl :: "string \<Rightarrow> string list" where
  "split_nl [] = [[]]"
| "split_nl (c # cs) =
     (if c = CHR 0x0A then [] # split_nl cs
      else (case split_nl cs of [] \<Rightarrow> [[c]] | l # ls \<Rightarrow> (c # l) # ls))"

fun join_nl :: "string list \<Rightarrow> string" where
  "join_nl [] = []"
| "join_nl [l] = l"
| "join_nl (l # l' # ls) = l @ CHR 0x0A # join_nl (l' # ls)"

section \<open>Regular-expression matching\<close>

text \<open>
  A matcher tries one pattern at the start of a text and returns the captured groups
  and the text after the match.

  \<open>plus P\<close> is a greedy \<^verbatim>\<open>X+\<close> for a character class \<open>X\<close>.  Wherever the script
  uses one, the pattern goes on with a character outside the class (\<^verbatim>\<open>\w+\<close> before
  \<^verbatim>\<open>\.\<close>, \<^verbatim>\<open>[^)]+\<close> and \<^verbatim>\<open>\d+\<close> before \<^verbatim>\<open>\)\<close>, \<^verbatim>\<open>\s+\<close> before \<^verbatim>\<open>await\<close>), so giving
  characters back can never help and the longest run is the only candidate.

  \<open>first_at k s\<close> tries \<open>k\<close> at \<open>s\<close>, then one character further, and so on, and
  returns the first success.  It is \<^verbatim>\<open>re.search\<close> (the leftmost start) and also the
  lazy \<^verbatim>\<open>.*?\<close> under \<^verbatim>\<open>re.DOTALL\<close> (as few characters as possible, of any kind,
  before the rest of the pattern matches).
\<close>

definition plus :: "(char \<Rightarrow> bool) \<Rightarrow> string \<Rightarrow> (string \<times> string) option" where
  "plus P s = (if takeWhile P s = [] then None else Some (takeWhile P s, dropWhile P s))"

definition one :: "(char \<Rightarrow> bool) \<Rightarrow> string \<Rightarrow> string option" where
  "one P s = (case s of [] \<Rightarrow> None | c # cs \<Rightarrow> if P c then Some cs else None)"

fun first_at :: "(string \<Rightarrow> 'a option) \<Rightarrow> string \<Rightarrow> 'a option" where
  "first_at k [] = k []"
| "first_at k (c # cs) = (case k (c # cs) of Some r \<Rightarrow> Some r | None \<Rightarrow> first_at k cs)"

text \<open>
  \<^verbatim>\<open>re.subn\<close>: scan from the left; where the pattern matches, emit the replacement
  and go on after the match, otherwise copy one character.  The last two cases are
  Python's treatment of a match of the empty string (the replacement is inserted and
  the scan moves on by one character); no pattern of the script has such a match.
\<close>

function subn :: "(string \<Rightarrow> ('g \<times> string) option) \<Rightarrow> ('g \<Rightarrow> string) \<Rightarrow> string \<Rightarrow> string \<times> nat" where
  "subn m r [] = (case m [] of None \<Rightarrow> ([], 0) | Some (g, rest) \<Rightarrow> (r g, 1))"
| "subn m r (c # cs) =
     (case m (c # cs) of
        None \<Rightarrow> (case subn m r cs of (t, n) \<Rightarrow> (c # t, n))
      | Some (g, rest) \<Rightarrow>
          if length rest \<le> length cs
          then (case subn m r rest of (t, n) \<Rightarrow> (r g @ t, Suc n))
          else (case subn m r cs of (t, n) \<Rightarrow> (r g @ c # t, Suc n)))"
  by pat_completeness auto
termination
  by (relation "measure (\<lambda>(m, r, s). length s)") auto

section \<open>The five rules\<close>

text \<open>
  Rule 1, \<^verbatim>\<open>await (\w+)\.waitForLoadState\(['\"]networkidle['\"]\)\<close>, replaced by
  \<^verbatim>\<open>await \1.waitForSelector('body', { timeout: 5000 })\<close>.
\<close>

definition match1 :: "string \<Rightarrow> (string \<times> string) option" where
  "match1 s = do {
     s1 \<leftarrow> lit ''await '' s;
     (g1, s2) \<leftarrow> plus is_word s1;
     s3 \<leftarrow> lit ''.waitForLoadState('' s2;
     s4 \<leftarrow> one is_quote s3;
     s5 \<leftarrow> lit ''networkidle'' s4;
     s6 \<leftarrow> one is_quote s5;
     s7 \<leftarrow> lit '')'' s6;
     Some (g1, s7) }"

definition repl1 :: "string \<Rightarrow> string" where
  "repl1 g1 = ''await '' @ g1 @ ''.waitForSelector('' @ sq @ ''body'' @ sq @ '', { timeout: 5000 })''"

text \<open>
  Rule 2 works line by line.  Its pattern is \<^verbatim>\<open>await (\w+)\.goto\(([^)]+)\)\<close>; its
  template is the raw string
  \<^verbatim>\<open>r'await \1.goto(\2, { waitUntil: \'domcontentloaded\', timeout: 10000 })'\<close>, in
  which each \<^verbatim>\<open>\'\<close> is a backslash and a quote; \<^verbatim>\<open>re.sub\<close> leaves an unknown escape
  of a non-letter as it is, so both characters reach the output.  A qualifying line
  adds one to the counter, whatever \<^verbatim>\<open>re.sub\<close> replaced on it.  (The \<^verbatim>\<open>pattern\<close> and
  \<^verbatim>\<open>replacement\<close> assigned just above the loop in the script are never used and have
  no part here.)
\<close>

definition not_rparen :: "char \<Rightarrow> bool" where
  "not_rparen c = (c \<noteq> CHR '')'')"

definition match2 :: "string \<Rightarrow> ((string \<times> string) \<times> string) option" where
  "match2 s = do {
     s1 \<leftarrow> lit ''await '' s;
     (g1, s2) \<leftarrow> plus is_word s1;
     s3 \<leftarrow> lit ''.goto('' s2;
     (g2, s4) \<leftarrow> plus not_rparen s3;
     s5 \<leftarrow> lit '')'' s4;
     Some ((g1, g2), s5) }"

definition repl2 :: "string \<times> string \<Rightarrow> string" where
  "repl2 g = (case g of (g1, g2) \<Rightarrow>
     ''await '' @ g1 @ ''.goto('' @ g2 @ '', { waitUntil: '' @ bs @ sq @ ''domcontentloaded''
       @ bs @ sq @ '', timeout: 10000 })'')"

definition fix2_line :: "string \<Rightarrow> string \<times> nat" where
  "fix2_line line =
     (if isin ''await '' line \<and> isin ''.goto('' line \<and> \<not> isin '', {'' line
         \<and> \<not> endswith (strip line) '',''
      then (case first_at match2 line of
              None \<Rightarrow> (line, 0)
            | Some ((g1, g2), rest) \<Rightarrow>
                if count_list g2 CHR '','' = 0
                then (fst (subn match2 repl2 line), 1)
                else (line, 0))
      else (line, 0))"

fun fix2_lines :: "string list \<Rightarrow> string list \<times> nat" where
  "fix2_lines [] = ([], 0)"
| "fix2_lines (line # lines) =
     (case fix2_line line of (line', k) \<Rightarrow>
        (case fix2_lines lines of (new_lines, n) \<Rightarrow> (line' # new_lines, k + n)))"

definition fix2 :: "string \<Rightarrow> string \<times> nat" where
  "fix2 content = (case fix2_lines (split_nl content) of (new_lines, n) \<Rightarrow> (join_nl new_lines, n))"

text \<open>
  Rule 3, \<^verbatim>\<open>(// Wait for iframe to load.*?\n\s+)await (\w+)\.waitForTimeout\(\d+\)\<close>
  with \<^verbatim>\<open>re.DOTALL\<close>, replaced by
  \<^verbatim>\<open>\1await \2.waitForSelector('#absmartly-sidebar-iframe', { state: 'attached', timeout: 5000 }).catch(() => {})\<close>.
  \<open>tail3\<close> is the pattern after \<^verbatim>\<open>.*?\<close>; it also returns the text from
  \<^verbatim>\<open>await\<close> on, where group 1 ends.
\<close>

definition tail3 :: "string \<Rightarrow> (string \<times> string \<times> string) option" where
  "tail3 t = do {
     t1 \<leftarrow> lit nl t;
     (ws, t2) \<leftarrow> plus is_space t1;
     t3 \<leftarrow> lit ''await '' t2;
     (g2, t4) \<leftarrow> plus is_word t3;
     t5 \<leftarrow> lit ''.waitForTimeout('' t4;
     (d, t6) \<leftarrow> plus is_digit t5;
     t7 \<leftarrow> lit '')'' t6;
     Some (t2, g2, t7) }"

definition match3 :: "string \<Rightarrow> ((string \<times> string) \<times> string) option" where
  "match3 s = do {
     s1 \<leftarrow> lit ''// Wait for iframe to load'' s;
     (t2, g2, rest) \<leftarrow> first_at tail3 s1;
     Some ((take (length s - length t2) s, g2), rest) }"

definition repl3 :: "string \<times> string \<Rightarrow> string" where
  "repl3 g = (case g of (g1, g2) \<Rightarrow>
     g1 @ ''await '' @ g2 @ ''.waitForSelector('' @ sq @ ''#absmartly-sidebar-iframe'' @ sq
       @ '', { state: '' @ sq @ ''attached'' @ sq @ '', timeout: 5000 }).catch(() => {})'')"

text \<open>
  Rule 4, \<^verbatim>\<open>await (\w+)\.click\(\)\s*\n(\s+)await (\w+)\.waitForTimeout\(\d+\)\<close>,
  replaced by
  \<^verbatim>\<open>await \1.click()\n\2// Wait briefly for UI update\n\2await \3.waitForLoadState('domcontentloaded', { timeout: 2000 }).catch(() => {})\<close>.
  Between \<^verbatim>\<open>click()\<close> and \<^verbatim>\<open>await\<close> stands one run of white space, which
  \<^verbatim>\<open>\s*\n(\s+)\<close> has to split; the greedy \<^verbatim>\<open>\s*\<close> takes the longest share that
  leaves a newline and at least one more character, so group 2 is what follows the
  last newline that is not the run's last character (\<open>last_nl\<close>).
\<close>

fun last_nl :: "string \<Rightarrow> string option" where
  "last_nl [] = None"
| "last_nl (c # cs) =
     (case last_nl cs of
        Some b \<Rightarrow> Some b
      | None \<Rightarrow> if c = CHR 0x0A \<and> cs \<noteq> [] then Some cs else None)"

definition match4 :: "string \<Rightarrow> ((string \<times> string \<times> string) \<times> string) option" where
  "match4 s = do {
     s1 \<leftarrow> lit ''await '' s;
     (g1, s2) \<leftarrow> plus is_word s1;
     s3 \<leftarrow> lit ''.click()'' s2;
     g2 \<leftarrow> last_nl (takeWhile is_space s3);
     s5 \<leftarrow> lit ''await '' (dropWhile is_space s3);
     (g3, s6) \<leftarrow> plus is_word s5;
     s7 \<leftarrow> lit ''.waitForTimeout('' s6;
     (d, s8) \<leftarrow> plus is_digit s7;
     s9 \<leftarrow> lit '')'' s8;
     Some ((g1, g2, g3), s9) }"

definition repl4 :: "string \<times> string \<times> string \<Rightarrow> string" where
  "repl4 g = (case g of (g1, g2, g3) \<Rightarrow>
     ''await '' @ g1 @ ''.click()'' @ nl @ g2 @ ''// Wait briefly for UI update'' @ nl @ g2
       @ ''await '' @ g3 @ ''.waitForLoadState('' @ sq @ ''domcontentloaded'' @ sq
       @ '', { timeout: 2000 }).catch(() => {})'')"

text \<open>
  Rule 5, \<^verbatim>\<open>await (\w+)\.waitForTimeout\((\d+)\)\<close>, replaced by
  \<^verbatim>\<open>// TODO: Replace timeout with specific element wait\n    await \1.waitForFunction(() => document.readyState === 'complete', { timeout: \2 }).catch(() => {})\<close>.
\<close>

definition match5 :: "string \<Rightarrow> ((string \<times> string) \<times> string) option" where
  "match5 s = do {
     s1 \<leftarrow> lit ''await '' s;
     (g1, s2) \<leftarrow> plus is_word s1;
     s3 \<leftarrow> lit ''.waitForTimeout('' s2;
     (g2, s4) \<leftarrow> plus is_digit s3;
     s5 \<leftarrow> lit '')'' s4;
     Some ((g1, g2), s5) }"

definition repl5 :: "string \<times> string \<Rightarrow> string" where
  "repl5 g = (case g of (g1, g2) \<Rightarrow>
     ''// TODO: Replace timeout with specific element wait'' @ nl @ ''    await '' @ g1
       @ ''.waitForFunction(() => document.readyState === '' @ sq @ ''complete'' @ sq
       @ '', { timeout: '' @ g2 @ '' }).catch(() => {})'')"

section \<open>The rewrite engine\<close>

text \<open>
  \<open>rewrite\<close> is the body of \<^verbatim>\<open>fix_file\<close> between reading and writing the file: the
  five rules in order, each on the text the previous one left, and the counter.  It
  is the engine as a function, with the replacement texts \<open>repl1\<close> to \<open>repl5\<close> written
  out; \<open>rewrite_checked\<close> below is the engine with the error outcomes of the library
  calls, working from the templates as the script writes them.
\<close>

definition rewrite :: "string \<Rightarrow> string \<times> nat" where
  "rewrite content =
     (case subn match1 repl1 content of (c1, n1) \<Rightarrow>
      case fix2 c1 of (c2, n2) \<Rightarrow>
      case subn match3 repl3 c2 of (c3, n3) \<Rightarrow>
      case subn match4 repl4 c3 of (c4, n4) \<Rightarrow>
      case subn match5 repl5 c4 of (c5, n5) \<Rightarrow>
        (c5, n1 + n2 + n3 + n4 + n5))"

text \<open>
  \<open>performed\<close> counts the replacements the five rules really make on a text: it is
  \<open>rewrite\<close> with rule 2 counting what \<^verbatim>\<open>re.sub\<close> replaced on each qualifying line
  (the number \<^verbatim>\<open>re.subn\<close> would have reported) in place of the constant one.
\<close>

definition performed2_line :: "string \<Rightarrow> string \<times> nat" where
  "performed2_line line =
     (if snd (fix2_line line) = 0 then (line, 0) else subn match2 repl2 line)"

fun performed2_lines :: "string list \<Rightarrow> string list \<times> nat" where
  "performed2_lines [] = ([], 0)"
| "performed2_lines (line # lines) =
     (case performed2_line line of (line', k) \<Rightarrow>
        (case performed2_lines lines of (new_lines, n) \<Rightarrow> (line' # new_lines, k + n)))"

definition performed :: "string \<Rightarrow> nat" where
  "performed content =
     (case subn match1 repl1 content of (c1, n1) \<Rightarrow>
      case performed2_lines (split_nl c1) of (ls, n2) \<Rightarrow>
      case subn match3 repl3 (join_nl ls) of (c3, n3) \<Rightarrow>
      case subn match4 repl4 c3 of (c4, n4) \<Rightarrow>
      case subn match5 repl5 c4 of (c5, n5) \<Rightarrow> n1 + n2 + n3 + n4 + n5)"

section \<open>Errors: the templates as \<^verbatim>\<open>re\<close> reads them, and the engine with its error outcomes\<close>

text \<open>
  What the script can raise: \<^verbatim>\<open>OSError\<close> when a file cannot be opened,
  \<^verbatim>\<open>UnicodeDecodeError\<close> when its bytes are not text in the encoding in use,
  \<^verbatim>\<open>re.error\<close> for a template that \<^verbatim>\<open>re\<close> rejects, and \<^verbatim>\<open>IndexError\<close> for a group
  that the pattern does not have.
\<close>

datatype error = OSError | UnicodeDecodeError | ReError | IndexError

definition bind_err :: "error + 'a \<Rightarrow> ('a \<Rightarrow> error + 'b) \<Rightarrow> error + 'b" where
  "bind_err x f = (case x of Inl e \<Rightarrow> Inl e | Inr a \<Rightarrow> f a)"

text \<open>
  \<^verbatim>\<open>re.sub\<close> and \<^verbatim>\<open>re.subn\<close> read the replacement template, on every call and before
  looking for a match, into literals and group references (\<^verbatim>\<open>parse_template\<close> of the
  \<^verbatim>\<open>re\<close> module); \<open>groups\<close> is the number of groups of the pattern.  After a backslash:
  \<^verbatim>\<open>g<name>\<close> is a reference by name or by number (the script's patterns have no named
  group, so a name that is an identifier raises \<^verbatim>\<open>IndexError\<close>; a name is read as a
  number when it is a run of decimal digits, which is Python 3.12's rule, earlier
  versions reading it with \<^verbatim>\<open>int\<close>); \<^verbatim>\<open>0\<close> starts an octal escape of up to three
  digits; another digit starts a group number of one or two digits, or an octal escape
  when three octal digits follow each other; \<^verbatim>\<open>a b f n r t v\<close> and the backslash are the
  usual escapes; any other ASCII letter is refused; any other character stays in the
  text together with its backslash.  A reference to a group beyond \<open>groups\<close> is refused.
  \<open>escape\<close> returns the items of one escape and the number of characters it has read
  after the character that follows the backslash.
\<close>

datatype item = Literal string | Group nat

definition is_octdigit :: "char \<Rightarrow> bool" where
  "is_octdigit c = (let n = (of_char c :: nat) in 48 \<le> n \<and> n \<le> 55)"

definition is_ascii_letter :: "char \<Rightarrow> bool" where
  "is_ascii_letter c = (let n = (of_char c :: nat) in (65 \<le> n \<and> n \<le> 90) \<or> (97 \<le> n \<and> n \<le> 122))"

definition is_xid_start :: "char \<Rightarrow> bool" where
  "is_xid_start c =
     (let n = (of_char c :: nat)
      in (65 \<le> n \<and> n \<le> 90) \<or> n = 95 \<or> (97 \<le> n \<and> n \<le> 122) \<or> n = 170 \<or> n = 181
         \<or> n = 186 \<or> (192 \<le> n \<and> n \<le> 214) \<or> (216 \<le> n \<and> n \<le> 246) \<or> 248 \<le> n)"

definition is_xid_continue :: "char \<Rightarrow> bool" where
  "is_xid_continue c = (is_xid_start c \<or> is_digit c \<or> c = CHR 0xB7)"

definition isidentifier :: "string \<Rightarrow> bool" where
  "isidentifier name =
     (case name of [] \<Rightarrow> False | c # cs \<Rightarrow> is_xid_start c \<and> list_all is_xid_continue cs)"

definition digit_val :: "char \<Rightarrow> nat" where
  "digit_val c = of_char c - 48"

definition number :: "nat \<Rightarrow> string \<Rightarrow> nat" where
  "number base ds = foldl (\<lambda>a c. base * a + digit_val c) 0 ds"

definition addgroup :: "nat \<Rightarrow> nat \<Rightarrow> nat \<Rightarrow> error + (item list \<times> nat)" where
  "addgroup groups index k = (if index > groups then Inl ReError else Inr ([Group index], k))"

definition escape :: "nat \<Rightarrow> char \<Rightarrow> string \<Rightarrow> error + (item list \<times> nat)" where
  "escape groups c s =
     (if c = CHR ''g'' then
        (case s of
           [] \<Rightarrow> Inl ReError
         | b # s' \<Rightarrow>
             if b \<noteq> CHR ''<'' then Inl ReError
             else (let name = takeWhile (\<lambda>x. x \<noteq> CHR ''>'') s' in
                   if length name = length s' then Inl ReError
                   else if name = [] then Inl ReError
                   else if isidentifier name then Inl IndexError
                   else if list_all is_digit name then addgroup groups (number 10 name) (length name + 2)
                   else Inl ReError))
      else if c = CHR ''0'' then
        (let ds = take 2 (takeWhile is_octdigit s)
         in Inr ([Literal [char_of (number 8 ds)]], length ds))
      else if is_digit c then
        (case s of
           [] \<Rightarrow> addgroup groups (digit_val c) 0
         | d # s' \<Rightarrow>
             if is_digit d then
               (case s' of
                  [] \<Rightarrow> addgroup groups (number 10 [c, d]) 1
                | e # s'' \<Rightarrow>
                    if is_octdigit c \<and> is_octdigit d \<and> is_octdigit e
                    then (if number 8 [c, d, e] > 255 then Inl ReError
                          else Inr ([Literal [char_of (number 8 [c, d, e])]], 2))
                    else addgroup groups (number 10 [c, d]) 1)
             else addgroup groups (digit_val c) 0)
      else if c = CHR ''a'' then Inr ([Literal [CHR 0x07]], 0)
      else if c = CHR ''b'' then Inr ([Literal [CHR 0x08]], 0)
      else if c = CHR ''f'' then Inr ([Literal [CHR 0x0C]], 0)
      else if c = CHR ''n'' then Inr ([Literal [CHR 0x0A]], 0)
      else if c = CHR ''r'' then Inr ([Literal [CHR 0x0D]], 0)
      else if c = CHR ''t'' then Inr ([Literal [CHR 0x09]], 0)
      else if c = CHR ''v'' then Inr ([Literal [CHR 0x0B]], 0)
      else if c = CHR 0x5C then Inr ([Literal [CHR 0x5C]], 0)
      else if is_ascii_letter c then Inl ReError
      else Inr ([Literal [CHR 0x5C, c]], 0))"

function parse_template :: "nat \<Rightarrow> string \<Rightarrow> error + item list" where
  "parse_template groups [] = Inr []"
| "parse_template groups (c # s) =
     (if c \<noteq> CHR 0x5C
      then bind_err (parse_template groups s) (\<lambda>items. Inr (Literal [c] # items))
      else (case s of
              [] \<Rightarrow> Inl ReError
            | e # s' \<Rightarrow>
                bind_err (escape groups e s') (\<lambda>(its, k).
                  bind_err (parse_template groups (drop k s')) (\<lambda>items. Inr (its @ items)))))"
  by pat_completeness auto
termination
  by (relation "measure (\<lambda>(groups, s). length s)") auto


text \<open>
  A match object holds the text of the whole match (group 0) and of the groups.  Every
  group of the script's patterns takes part in every match.  \<open>expand\<close> fills a parsed
  template from a match, and \<open>group\<close> is \<^verbatim>\<open>match.group(i)\<close>.
\<close>

fun expand_template :: "item list \<Rightarrow> string list \<Rightarrow> error + string" where
  "expand_template [] g = Inr []"
| "expand_template (Literal l # items) g = bind_err (expand_template items g) (\<lambda>t. Inr (l @ t))"
| "expand_template (Group i # items) g =
     (if i < length g then bind_err (expand_template items g) (\<lambda>t. Inr (g ! i @ t))
      else Inl ReError)"

record match_obj =
  whole :: string
  captured :: "string list"

definition group :: "match_obj \<Rightarrow> nat \<Rightarrow> error + string" where
  "group mo i = (if i \<le> length (captured mo) then Inr ((whole mo # captured mo) ! i) else Inl IndexError)"

definition expand :: "item list \<Rightarrow> match_obj \<Rightarrow> error + string" where
  "expand items mo = expand_template items (whole mo # captured mo)"

text \<open>
  \<open>subn_items\<close> is the scan of \<open>subn\<close> with the replacement text expanded from the
  parsed template at each match, and \<open>re_subn\<close> is \<^verbatim>\<open>re.subn\<close> as the script calls it:
  the template is parsed, then the text is scanned.
\<close>

function subn_items :: "(string \<Rightarrow> ('g \<times> string) option) \<Rightarrow> ('g \<Rightarrow> string list) \<Rightarrow> item list
    \<Rightarrow> string \<Rightarrow> error + (string \<times> nat)" where
  "subn_items m gl items [] =
     (case m [] of
        None \<Rightarrow> Inr ([], 0)
      | Some (g, rest) \<Rightarrow>
          bind_err (expand items \<lparr>whole = [], captured = gl g\<rparr>) (\<lambda>r. Inr (r, 1)))"
| "subn_items m gl items (c # cs) =
     (case m (c # cs) of
        None \<Rightarrow> bind_err (subn_items m gl items cs) (\<lambda>(t, n). Inr (c # t, n))
      | Some (g, rest) \<Rightarrow>
          bind_err (expand items \<lparr>whole = take (Suc (length cs) - length rest) (c # cs), captured = gl g\<rparr>)
            (\<lambda>r. if length rest \<le> length cs
                  then bind_err (subn_items m gl items rest) (\<lambda>(t, n). Inr (r @ t, Suc n))
                  else bind_err (subn_items m gl items cs) (\<lambda>(t, n). Inr (r @ c # t, Suc n))))"
  by pat_completeness auto
termination
  by (relation "measure (\<lambda>(m, gl, items, s). length s)") auto

definition re_subn :: "nat \<Rightarrow> (string \<Rightarrow> ('g \<times> string) option) \<Rightarrow> ('g \<Rightarrow> string list) \<Rightarrow> string
    \<Rightarrow> string \<Rightarrow> error + (string \<times> nat)" where
  "re_subn groups m gl template s =
     bind_err (parse_template groups template) (\<lambda>items. subn_items m gl items s)"

text \<open>
  The five templates, character for character as the script writes them in raw
  strings, and the groups of the matchers as lists.
\<close>

definition template1 :: string where
  "template1 = ''await '' @ bs @ ''1.waitForSelector('' @ sq @ ''body'' @ sq @ '', { timeout: 5000 })''"

definition template2 :: string where
  "template2 = ''await '' @ bs @ ''1.goto('' @ bs @ ''2, { waitUntil: '' @ bs @ sq @ ''domcontentloaded''
     @ bs @ sq @ '', timeout: 10000 })''"

definition template3 :: string where
  "template3 = bs @ ''1await '' @ bs @ ''2.waitForSelector('' @ sq @ ''#absmartly-sidebar-iframe'' @ sq
     @ '', { state: '' @ sq @ ''attached'' @ sq @ '', timeout: 5000 }).catch(() => {})''"

definition template4 :: string where
  "template4 = ''await '' @ bs @ ''1.click()'' @ bs @ ''n'' @ bs @ ''2// Wait briefly for UI update'' @ bs
     @ ''n'' @ bs @ ''2await '' @ bs @ ''3.waitForLoadState('' @ sq @ ''domcontentloaded'' @ sq
     @ '', { timeout: 2000 }).catch(() => {})''"

definition template5 :: string where
  "template5 = ''// TODO: Replace timeout with specific element wait'' @ bs @ ''n    await '' @ bs
     @ ''1.waitForFunction(() => document.readyState === '' @ sq @ ''complete'' @ sq
     @ '', { timeout: '' @ bs @ ''2 }).catch(() => {})''"

definition groups1 :: "string \<Rightarrow> string list" where
  "groups1 g1 = [g1]"

definition groups2 :: "string \<times> string \<Rightarrow> string list" where
  "groups2 g = (case g of (g1, g2) \<Rightarrow> [g1, g2])"

definition groups3 :: "string \<times> string \<times> string \<Rightarrow> string list" where
  "groups3 g = (case g of (g1, g2, g3) \<Rightarrow> [g1, g2, g3])"

text \<open>
  The engine again, as the script calls the library: every \<^verbatim>\<open>re.subn\<close> and
  \<^verbatim>\<open>re.sub\<close> goes through \<open>re_subn\<close> with the raw template, and rule 2 reads
  \<^verbatim>\<open>match.group(2)\<close> through \<open>group\<close>.
\<close>

definition fix2_line_checked :: "string \<Rightarrow> error + (string \<times> nat)" where
  "fix2_line_checked line =
     (if isin ''await '' line \<and> isin ''.goto('' line \<and> \<not> isin '', {'' line
         \<and> \<not> endswith (strip line) '',''
      then (case first_at match2 line of
              None \<Rightarrow> Inr (line, 0)
            | Some (g, rest) \<Rightarrow>
                bind_err (group \<lparr>whole = take (length line - length rest) line, captured = groups2 g\<rparr> 2)
                  (\<lambda>g2. if count_list g2 CHR '','' = 0
                        then bind_err (re_subn 2 match2 groups2 template2 line) (\<lambda>(l, n). Inr (l, 1))
                        else Inr (line, 0)))
      else Inr (line, 0))"

fun fix2_lines_checked :: "string list \<Rightarrow> error + (string list \<times> nat)" where
  "fix2_lines_checked [] = Inr ([], 0)"
| "fix2_lines_checked (line # lines) =
     bind_err (fix2_line_checked line) (\<lambda>(line', k).
       bind_err (fix2_lines_checked lines) (\<lambda>(new_lines, n). Inr (line' # new_lines, k + n)))"

definition fix2_checked :: "string \<Rightarrow> error + (string \<times> nat)" where
  "fix2_checked content =
     bind_err (fix2_lines_checked (split_nl content)) (\<lambda>(new_lines, n). Inr (join_nl new_lines, n))"

definition rewrite_checked :: "string \<Rightarrow> error + (string \<times> nat)" where
  "rewrite_checked content =
     bind_err (re_subn 1 match1 groups1 template1 content) (\<lambda>(c1, n1).
     bind_err (fix2_checked c1) (\<lambda>(c2, n2).
     bind_err (re_subn 2 match3 groups2 template3 c2) (\<lambda>(c3, n3).
     bind_err (re_subn 3 match4 groups3 template4 c3) (\<lambda>(c4, n4).
     bind_err (re_subn 2 match5 groups2 template5 c4) (\<lambda>(c5, n5).
       Inr (c5, n1 + n2 + n3 + n4 + n5))))))"

section \<open>Files and the driver\<close>

text \<open>
  A file holds bytes that either decode to a text or do not, and can be writable or
  not.  \<^verbatim>\<open>open(filepath, 'r')\<close> fails on a missing file; the file object it returns has
  a read position.  \<^verbatim>\<open>f.read()\<close> decodes the file, which can fail, translates the line
  ends \<^verbatim>\<open>\r\n\<close> and \<^verbatim>\<open>\r\<close> to \<^verbatim>\<open>\n\<close> (text mode with universal newlines), returns
  the text from the read position to the end and leaves the position at the end.
  \<^verbatim>\<open>open(filepath, 'w')\<close> fails on a file that is not writable; \<^verbatim>\<open>f.write\<close> stores the
  text as it is (the line end of the platform the script is written for is \<^verbatim>\<open>\n\<close>).
\<close>

datatype stored = Undecodable | Text string

type_synonym files = "string \<rightharpoonup> stored \<times> bool"

record file_obj =
  data :: stored
  pos :: nat

fun universal_newlines :: "string \<Rightarrow> string" where
  "universal_newlines [] = []"
| "universal_newlines [c] = [if c = CHR 0x0D then CHR 0x0A else c]"
| "universal_newlines (c # d # s) =
     (if c = CHR 0x0D
      then (if d = CHR 0x0A then CHR 0x0A # universal_newlines s
            else CHR 0x0A # universal_newlines (d # s))
      else c # universal_newlines (d # s))"

definition open_r :: "files \<Rightarrow> string \<Rightarrow> error + file_obj" where
  "open_r fs filepath =
     (case fs filepath of
        None \<Rightarrow> Inl OSError
      | Some (d, writable) \<Rightarrow> Inr \<lparr>data = d, pos = 0\<rparr>)"

definition read :: "file_obj \<Rightarrow> error + (string \<times> file_obj)" where
  "read f =
     (case data f of
        Undecodable \<Rightarrow> Inl UnicodeDecodeError
      | Text t \<Rightarrow> Inr (drop (pos f) (universal_newlines t), f\<lparr>pos := length (universal_newlines t)\<rparr>))"

definition write_text :: "files \<Rightarrow> string \<Rightarrow> string \<Rightarrow> error + files" where
  "write_text fs filepath content =
     (case fs filepath of
        None \<Rightarrow> Inr (fs(filepath \<mapsto> (Text content, True)))
      | Some (d, writable) \<Rightarrow>
          if writable then Inr (fs(filepath \<mapsto> (Text content, True))) else Inl OSError)"

text \<open>
  \<^verbatim>\<open>fix_file\<close> reads the file, runs the engine on the text read, and writes the file
  and returns the counter only when the text differs from the text read.
\<close>

definition fix_file :: "files \<Rightarrow> string \<Rightarrow> error + (files \<times> nat)" where
  "fix_file fs filepath =
     bind_err (open_r fs filepath) (\<lambda>f.
     bind_err (read f) (\<lambda>(original, f').
     bind_err (rewrite_checked original) (\<lambda>(content, changes).
       if content \<noteq> original
       then bind_err (write_text fs filepath content) (\<lambda>fs'. Inr (fs', changes))
       else Inr (fs, 0))))"

text \<open>
  \<open>prefilter_skips\<close> is the condition of \<^verbatim>\<open>continue\<close> in \<^verbatim>\<open>main\<close>:
  \<^verbatim>\<open>'waitForTimeout' not in f.read() and 'networkidle' not in f.read()\<close>, both reads on
  the same file object, the second evaluated only when the first test holds.
\<close>

definition prefilter_skips :: "file_obj \<Rightarrow> error + bool" where
  "prefilter_skips f =
     bind_err (read f) (\<lambda>(r1, f1).
       if \<not> isin ''waitForTimeout'' r1
       then bind_err (read f1) (\<lambda>(r2, f2). Inr (\<not> isin ''networkidle'' r2))
       else Inr False)"

fun main_loop :: "files \<Rightarrow> string list \<Rightarrow> nat \<Rightarrow> nat \<Rightarrow> error + (files \<times> nat \<times> nat)" where
  "main_loop fs [] total_files total_changes = Inr (fs, total_files, total_changes)"
| "main_loop fs (filepath # spec_files) total_files total_changes =
     (case bind_err (open_r fs filepath) prefilter_skips of
        Inl e \<Rightarrow> Inl e
      | Inr skip \<Rightarrow>
          if skip then main_loop fs spec_files total_files total_changes
          else (case fix_file fs filepath of
                  Inl e \<Rightarrow> Inl e
                | Inr (fs', changes) \<Rightarrow>
                    if changes > 0
                    then main_loop fs' spec_files (total_files + 1) (total_changes + changes)
                    else main_loop fs' spec_files total_files total_changes))"


section \<open>Lemmas about the primitives and the matchers\<close>

lemma lit_Some_iff: "lit p s = Some r \<longleftrightarrow> s = p @ r"
  by (induction p s rule: lit.induct) auto

lemma lit_append [simp]: "lit p (p @ r) = Some r"
  by (simp add: lit_Some_iff)

lemma subn_no_match: "first_at m s = None \<Longrightarrow> subn m r s = (s, 0)"
  by (induction s) (auto split: option.splits)

lemma split_nl_not_Nil: "split_nl s \<noteq> []"
  by (induction s) (auto split: list.splits)

lemma join_split: "join_nl (split_nl s) = s"
proof (induction s)
  case Nil
  show ?case by simp
next
  case (Cons c cs)
  obtain l ls where sp: "split_nl cs = l # ls"
    using split_nl_not_Nil [of cs] by (cases "split_nl cs") auto
  show ?case
  proof (cases "c = CHR 0x0A")
    case True
    with Cons sp show ?thesis by simp
  next
    case False
    with Cons sp show ?thesis by (cases ls) auto
  qed
qed

lemma fix2_line_unchanged: "snd (fix2_line line) = 0 \<Longrightarrow> fix2_line line = (line, 0)"
  by (auto simp: fix2_line_def split: if_splits option.splits prod.splits)

lemma fix2_lines_unchanged:
  "list_all (\<lambda>l. snd (fix2_line l) = 0) ls \<Longrightarrow> fix2_lines ls = (ls, 0)"
  by (induction ls) (auto simp: fix2_line_unchanged)

lemma is_digit_word: "is_digit c \<Longrightarrow> is_word c"
  by (auto simp: is_digit_def is_word_def Let_def)

lemma not_class_simps [simp]:
  "\<not> is_word CHR '' ''" "\<not> is_word CHR ''.''" "\<not> is_word CHR ''(''" "\<not> is_word CHR '')''"
  "\<not> is_word CHR ''/''" "\<not> is_word CHR 0x0A" "\<not> is_word CHR 0x27" "\<not> is_word CHR 0x22"
  "\<not> is_word CHR '',''" "\<not> is_word CHR ''{''"
  "\<not> is_digit CHR '')''" "\<not> is_space CHR ''a''" "is_space CHR 0x0A"
  by (simp_all add: is_word_def is_digit_def is_space_def)

lemma plus_SomeD:
  "plus P s = Some (w, r) \<Longrightarrow> s = w @ r \<and> w \<noteq> [] \<and> list_all P w"
  by (auto simp: plus_def list_all_iff split: if_splits dest: set_takeWhileD)

lemma plus_append:
  "w \<noteq> [] \<Longrightarrow> list_all P w \<Longrightarrow> \<not> P c \<Longrightarrow> plus P (w @ c # r) = Some (w, c # r)"
  by (cases w) (simp_all add: plus_def list_all_iff takeWhile_append2 dropWhile_append2)

lemma first_at_None_by_char:
  assumes "\<And>s x. m s = Some x \<Longrightarrow> \<exists>c\<in>set s. Q c" and "\<forall>c\<in>set T. \<not> Q c"
  shows "first_at m T = None"
  using assms(2)
proof (induction T)
  case Nil
  show ?case using assms(1) [of "[]"] by (cases "m []") auto
next
  case (Cons c cs)
  have "m (c # cs) = None" using assms(1) [of "c # cs"] Cons.prems by (cases "m (c # cs)") auto
  with Cons show ?case by simp
qed

lemma match1_SomeD:
  assumes "match1 s = Some (g1, rest)"
  shows "\<exists>q1 q2. s = ''await '' @ g1 @ ''.waitForLoadState('' @ q1 # ''networkidle'' @ q2 # '')'' @ rest
           \<and> g1 \<noteq> [] \<and> list_all is_word g1 \<and> is_quote q1 \<and> is_quote q2"
  using assms
  by (auto simp: match1_def lit_Some_iff one_def
      split: Option.bind_splits if_splits list.splits dest!: plus_SomeD)

lemma match5_SomeD:
  assumes "match5 s = Some ((g1, g2), rest)"
  shows "s = ''await '' @ g1 @ ''.waitForTimeout('' @ g2 @ '')'' @ rest
           \<and> g1 \<noteq> [] \<and> list_all is_word g1 \<and> g2 \<noteq> [] \<and> list_all is_digit g2"
  using assms
  by (auto simp: match5_def lit_Some_iff
      split: Option.bind_splits if_splits list.splits dest!: plus_SomeD)

lemma match5_I:
  assumes "g1 \<noteq> []" "list_all is_word g1" "g2 \<noteq> []" "list_all is_digit g2"
  shows "match5 (''await '' @ g1 @ ''.waitForTimeout('' @ g2 @ '')'' @ rest) = Some ((g1, g2), rest)"
  using assms by (simp add: match5_def plus_append)

lemma match1_has_quote: "match1 s = Some x \<Longrightarrow> \<exists>c\<in>set s. is_quote c"
  by (cases x) (auto dest!: match1_SomeD)

lemma match3_has_slash: "match3 s = Some x \<Longrightarrow> \<exists>c\<in>set s. c = CHR ''/''"
  by (auto simp: match3_def lit_Some_iff split: Option.bind_splits)

lemma last_nl_has_nl: "last_nl w = Some b \<Longrightarrow> CHR 0x0A \<in> set w"
  by (induction w arbitrary: b) (auto split: option.splits if_splits)

lemma match4_has_nl: "match4 s = Some x \<Longrightarrow> \<exists>c\<in>set s. c = CHR 0x0A"
proof -
  assume "match4 s = Some x"
  then obtain s1 g1 s2 s3 g2 where "lit ''await '' s = Some s1" "plus is_word s1 = Some (g1, s2)"
    "lit ''.click()'' s2 = Some s3" "last_nl (takeWhile is_space s3) = Some g2"
    by (auto simp: match4_def split: Option.bind_splits)
  then have "s = ''await '' @ g1 @ ''.click()'' @ s3" "CHR 0x0A \<in> set (takeWhile is_space s3)"
    by (auto simp: lit_Some_iff dest!: plus_SomeD last_nl_has_nl)
  then show ?thesis by (auto dest: set_takeWhileD)
qed

lemma isin_iff: "isin p s \<longleftrightarrow> (\<exists>a b. s = a @ p @ b)"
proof (induction s)
  case Nil
  show ?case by auto
next
  case (Cons c cs)
  have "startswith (c # cs) p \<longleftrightarrow> (\<exists>b. c # cs = p @ b)"
    by (cases "lit p (c # cs)") (auto simp: startswith_def lit_Some_iff)
  then show ?case
    apply (simp add: Cons)
    apply (rule iffI)
     apply (erule disjE)
      apply (metis append_Nil)
     apply (metis append_Cons)
    apply (elim exE)
    subgoal for a b by (cases a) auto
    done
qed

lemma split_nl_single: "CHR 0x0A \<notin> set s \<Longrightarrow> split_nl s = [s]"
  by (induction s) auto

lemma wait_no_goto:
  assumes "list_all is_word w" "list_all is_digit d"
  shows "\<not> isin ''.goto('' (''await '' @ w @ ''.waitForTimeout('' @ d @ '')'')"
proof
  assume "isin ''.goto('' (''await '' @ w @ ''.waitForTimeout('' @ d @ '')'')"
  then obtain a b where e: "''await '' @ w @ ''.waitForTimeout('' @ d @ '')'' = a @ ''.goto('' @ b"
    by (auto simp: isin_iff)
  have nw: "CHR ''('' \<notin> set w" using assms(1) by (auto simp: list_all_iff)
  have nd: "CHR ''('' \<notin> set d" using assms(2) not_class_simps(3) by (auto simp: list_all_iff dest!: is_digit_word)
  have "(''await '' @ w @ ''.waitForTi'') @ ''meout'' @ CHR ''('' # (d @ '')'') = (a @ ''.goto'') @ CHR ''('' # b"
    using e by simp
  moreover have "CHR ''('' \<notin> set ((''await '' @ w @ ''.waitForTi'') @ ''meout'')" using nw by simp
  moreover have "CHR ''('' \<notin> set (d @ '')'')" using nd by simp
  ultimately have "(''await '' @ w @ ''.waitForTi'') @ ''meout'' = a @ ''.goto''"
    by (metis append.assoc append_Cons_eq_iff)
  then show False by simp
qed

lemma plus_space_append:
  "ws \<noteq> [] \<Longrightarrow> list_all is_space ws \<Longrightarrow> plus is_space (ws @ CHR ''a'' # r) = Some (ws, CHR ''a'' # r)"
  by (rule plus_append) simp_all

lemma tail3_I:
  assumes "ws \<noteq> []" "list_all is_space ws" "w \<noteq> []" "list_all is_word w"
    "d \<noteq> []" "list_all is_digit d"
  shows "tail3 (nl @ ws @ ''await '' @ w @ ''.waitForTimeout('' @ d @ '')'' @ rest)
         = Some (''await '' @ w @ ''.waitForTimeout('' @ d @ '')'' @ rest, w, rest)"
  using assms by (simp add: tail3_def plus_space_append plus_append)

lemma tail3_not_nl: "c \<noteq> CHR 0x0A \<Longrightarrow> tail3 (c # s) = None"
  by (simp add: tail3_def)

lemma take_prefix_len: "take (length (p @ W) - length W) (p @ W) = p"
  by simp

lemma first_at_tail3_line:
  assumes "CHR 0x0A \<notin> set c" "tail3 Y = Some r"
  shows "first_at tail3 (c @ Y) = Some r"
  using assms(1)
proof (induction c)
  case Nil
  show ?case using assms(2) by (cases Y) simp_all
next
  case (Cons x c)
  then have "tail3 (x # c @ Y) = None" by (intro tail3_not_nl) auto
  with Cons show ?case by simp
qed


lemma lit_await_word_run:
  assumes "list_all is_word w"
  shows "lit ''await '' (w @ CHR ''.'' # X) = None"
proof (cases "lit ''await '' (w @ CHR ''.'' # X)")
  case None
  then show ?thesis .
next
  case (Some r)
  then have e: "w @ CHR ''.'' # X = ''await '' @ r" by (simp add: lit_Some_iff)
  have nw: "CHR '' '' \<notin> set w" using assms by (auto simp: list_all_iff)
  from e show ?thesis
    using nw by (auto simp: append_eq_Cons_conv)
qed


lemma first_at_run:
  assumes "\<And>c s. Q c \<Longrightarrow> m (c # s) = None" "list_all Q u"
  shows "first_at m (u @ Y) = first_at m Y"
  using assms(2) by (induction u) (auto simp: assms(1))

lemma first_at_word_run:
  assumes "\<And>s. lit ''await '' s = None \<Longrightarrow> m s = None" "list_all is_word w"
  shows "first_at m (w @ CHR ''.'' # X) = first_at m (CHR ''.'' # X)"
  using assms(2)
proof (induction w)
  case Nil
  show ?case by simp
next
  case (Cons x w)
  have "m ((x # w) @ CHR ''.'' # X) = None"
    by (rule assms(1), rule lit_await_word_run, rule Cons.prems)
  with Cons show ?case by simp
qed


lemma digit_start: "is_digit c \<Longrightarrow> lit ''await '' (c # s) = None"
  by (auto simp: is_digit_def)

lemma match5_start: "lit ''await '' s = None \<Longrightarrow> match5 s = None"
  by (simp add: match5_def)

lemma match5_digit: "is_digit c \<Longrightarrow> match5 (c # s) = None"
  by (rule match5_start, rule digit_start)

lemma plus_run:
  "list_all P w \<Longrightarrow> \<not> P c \<Longrightarrow> plus P (w @ c # r) = (if w = [] then None else Some (w, c # r))"
  by (cases w) (simp_all add: plus_def list_all_iff takeWhile_append2 dropWhile_append2)

lemma first_at5_repl5:
  assumes "list_all is_word w" "list_all is_digit d"
  shows "first_at match5 (repl5 (w, d) @ Y) = first_at match5 Y"
proof -
  have a: "first_at match5 (w @ CHR ''.'' # X) = first_at match5 (CHR ''.'' # X)" for X
    by (rule first_at_word_run [OF match5_start assms(1)])
  have b: "first_at match5 (d @ X) = first_at match5 X" for X
    by (rule first_at_run [where Q = is_digit]) (auto intro: match5_digit assms(2))
  have m: "match5 (''await '' @ w @ CHR ''.'' # CHR ''w'' # CHR ''a'' # CHR ''i'' # CHR ''t'' # CHR ''F'' # CHR ''o'' # CHR ''r'' # CHR ''F'' # X) = None" for X
    using assms(1) by (simp add: match5_def plus_run)
  show ?thesis
    using m by (simp add: repl5_def a b match5_def)
qed

lemma prefix_before_char:
  assumes "a @ x # R = M @ rest" "x \<notin> set M"
  shows "\<exists>a'. a = M @ a'"
proof -
  from assms(1) consider us where "a = M @ us" | us where "a @ us = M" "us @ rest = x # R"
    by (auto simp: append_eq_append_conv2)
  then show ?thesis
  proof cases
    case 1
    then show ?thesis by blast
  next
    case 2
    then show ?thesis using assms(2) by (cases us) auto
  qed
qed

lemma match5_no_slash:
  assumes "list_all is_word w" "list_all is_digit d"
  shows "CHR ''/'' \<notin> set (''await '' @ w @ ''.waitForTimeout('' @ d @ '')'')"
  using assms not_class_simps(5) by (auto simp: list_all_iff dest!: is_digit_word)

lemma match5_shorter: "match5 (c # cs) = Some (g, rest) \<Longrightarrow> length rest \<le> length cs"
  by (cases g) (auto dest!: match5_SomeD)

lemma match5_Nil: "match5 [] = None"
  by (simp add: match5_def)

lemma subn_None:
  "m (c # cs) = None \<Longrightarrow> subn m r (c # cs) = (c # fst (subn m r cs), snd (subn m r cs))"
  by (simp split: prod.splits)

lemma subn_Some:
  "m (c # cs) = Some (g, rest) \<Longrightarrow> length rest \<le> length cs \<Longrightarrow>
     subn m r (c # cs) = (r g @ fst (subn m r rest), Suc (snd (subn m r rest)))"
  by (simp split: prod.splits)

lemma subn5_agree:
  "match5 (a @ fst (subn match5 repl5 X)) = Some (g, rest) \<Longrightarrow> match5 (a @ X) \<noteq> None"
proof (induction X arbitrary: a rule: length_induct)
  case (1 X)
  show ?case
  proof (cases X)
    case Nil
    with "1.prems" show ?thesis by (simp add: match5_Nil)
  next
    case (Cons c cs)
    show ?thesis
    proof (cases "match5 (c # cs)")
      case None
      from "1.prems" Cons
      have "match5 ((a @ [c]) @ fst (subn match5 repl5 cs)) = Some (g, rest)"
        by (simp add: subn_None [where m = match5, OF None] del: subn.simps)
      moreover have "length cs < length X" using Cons by simp
      ultimately have "match5 ((a @ [c]) @ cs) \<noteq> None" using "1.IH" by blast
      then show ?thesis using Cons by simp
    next
      case (Some x)
      obtain w d rest0 where x: "x = ((w, d), rest0)" by (cases x) auto
      from Some x have sh: "length rest0 \<le> length cs" by (auto dest: match5_shorter)
      from Some x have cls: "list_all is_word w" "list_all is_digit d"
        by (auto dest!: match5_SomeD)
      from "1.prems" Cons
      have e: "match5 (a @ repl5 (w, d) @ fst (subn match5 repl5 rest0)) = Some (g, rest)"
        by (simp add: subn_Some [where m = match5, OF Some [unfolded x] sh] del: subn.simps)
      obtain g1 g2 where g: "g = (g1, g2)" by (cases g) auto
      define M where "M = ''await '' @ g1 @ ''.waitForTimeout('' @ g2 @ '')''"
      from e g have d5: "a @ repl5 (w, d) @ fst (subn match5 repl5 rest0) = M @ rest"
        and gc: "g1 \<noteq> []" "list_all is_word g1" "g2 \<noteq> []" "list_all is_digit g2"
        unfolding M_def by (auto dest!: match5_SomeD)
      have ns: "CHR ''/'' \<notin> set M" unfolding M_def by (rule match5_no_slash [OF gc(2) gc(4)])
      obtain R where r: "repl5 (w, d) = CHR ''/'' # R" by (simp add: repl5_def)
      from d5 r have "a @ CHR ''/'' # (R @ fst (subn match5 repl5 rest0)) = M @ rest" by simp
      from prefix_before_char [OF this ns] obtain a' where "a = M @ a'" by blast
      then have "match5 (a @ X) = Some ((g1, g2), a' @ X)"
        unfolding M_def using match5_I [OF gc, of "a' @ X"] by simp
      then show ?thesis by simp
    qed
  qed
qed

lemma subn5_output_clean: "first_at match5 (fst (subn match5 repl5 X)) = None"
proof (induction X rule: length_induct)
  case (1 X)
  show ?case
  proof (cases X)
    case Nil
    then show ?thesis by (simp add: match5_Nil)
  next
    case (Cons c cs)
    show ?thesis
    proof (cases "match5 (c # cs)")
      case None
      have "match5 (c # fst (subn match5 repl5 cs)) = None"
      proof (cases "match5 (c # fst (subn match5 repl5 cs))")
        case (Some y)
        obtain g rest where "y = (g, rest)" by (cases y) auto
        with Some subn5_agree [of "[c]" cs g rest] None show ?thesis by simp
      qed simp
      moreover have "first_at match5 (fst (subn match5 repl5 cs)) = None"
        using "1.IH" Cons by simp
      ultimately show ?thesis using Cons by (simp add: subn_None [where m = match5, OF None] del: subn.simps)
    next
      case (Some x)
      obtain w d rest0 where x: "x = ((w, d), rest0)" by (cases x) auto
      from Some x have sh: "length rest0 \<le> length cs" by (auto dest: match5_shorter)
      from Some x have cls: "list_all is_word w" "list_all is_digit d"
        by (auto dest!: match5_SomeD)
      have "first_at match5 (fst (subn match5 repl5 rest0)) = None"
        using "1.IH" Cons sh by simp
      then show ?thesis
        using Cons by (simp add: subn_Some [where m = match5, OF Some [unfolded x] sh] first_at5_repl5 [OF cls] del: subn.simps)
    qed
  qed
qed

lemma first_at_None_suffix: "first_at m (a @ s) = None \<Longrightarrow> m s = None"
proof (induction a)
  case Nil
  then show ?case by (cases s) (auto split: option.splits)
next
  case (Cons x a)
  then show ?case by (auto split: option.splits)
qed

lemma first_at_SomeD: "first_at k s = Some r \<Longrightarrow> \<exists>a b. s = a @ b \<and> k b = Some r"
proof (induction s)
  case Nil
  then show ?case by simp
next
  case (Cons c cs)
  show ?case
  proof (cases "k (c # cs)")
    case None
    with Cons obtain a b where "cs = a @ b" "k b = Some r" by auto
    then have "c # cs = (c # a) @ b \<and> k b = Some r" by simp
    then show ?thesis by blast
  next
    case (Some y)
    with Cons.prems have "c # cs = [] @ (c # cs) \<and> k (c # cs) = Some r" by simp
    then show ?thesis by blast
  qed
qed

lemma match4_ends_with_match5:
  assumes "match4 s = Some x"
  shows "\<exists>a b y. s = a @ b \<and> match5 b = Some y"
proof -
  from assms obtain s1 g1 s2 s3 g2 s5 g3 s6 s7 d s8 s9 where
    "lit ''await '' s = Some s1" "plus is_word s1 = Some (g1, s2)" "lit ''.click()'' s2 = Some s3"
    "lit ''await '' (dropWhile is_space s3) = Some s5" "plus is_word s5 = Some (g3, s6)"
    "lit ''.waitForTimeout('' s6 = Some s7" "plus is_digit s7 = Some (d, s8)" "lit '')'' s8 = Some s9"
    by (auto simp: match4_def split: Option.bind_splits)
  then have a0: "s = (''await '' @ g1 @ ''.click()'') @ s3"
    and b: "dropWhile is_space s3 = ''await '' @ g3 @ ''.waitForTimeout('' @ d @ '')'' @ s9"
    and c: "g3 \<noteq> []" "list_all is_word g3" "d \<noteq> []" "list_all is_digit d"
    by (auto simp: lit_Some_iff dest!: plus_SomeD)
  have a: "s = ((''await '' @ g1 @ ''.click()'') @ takeWhile is_space s3) @ dropWhile is_space s3"
    by (subst a0) (simp only: append_assoc takeWhile_dropWhile_id)
  have "match5 (dropWhile is_space s3) = Some ((g3, d), s9)"
    unfolding b by (rule match5_I [OF c])
  with a show ?thesis by blast
qed

lemma tail3_ends_with_match5:
  assumes "tail3 t = Some x"
  shows "\<exists>a b y. t = a @ b \<and> match5 b = Some y"
proof -
  from assms obtain t1 ws t2 t3 g2 t4 t5 d t6 t7 where
    "lit nl t = Some t1" "plus is_space t1 = Some (ws, t2)" "lit ''await '' t2 = Some t3"
    "plus is_word t3 = Some (g2, t4)" "lit ''.waitForTimeout('' t4 = Some t5"
    "plus is_digit t5 = Some (d, t6)" "lit '')'' t6 = Some t7"
    by (auto simp: tail3_def split: Option.bind_splits)
  then have a: "t = (nl @ ws) @ t2"
    and b: "t2 = ''await '' @ g2 @ ''.waitForTimeout('' @ d @ '')'' @ t7"
    and c: "g2 \<noteq> []" "list_all is_word g2" "d \<noteq> []" "list_all is_digit d"
    by (auto simp: lit_Some_iff dest!: plus_SomeD)
  have "match5 t2 = Some ((g2, d), t7)"
    unfolding b by (rule match5_I [OF c])
  with a show ?thesis by blast
qed

lemma match3_ends_with_match5:
  assumes "match3 s = Some x"
  shows "\<exists>a b y. s = a @ b \<and> match5 b = Some y"
proof -
  from assms obtain s1 r where l: "lit ''// Wait for iframe to load'' s = Some s1"
    and f: "first_at tail3 s1 = Some r"
    by (auto simp: match3_def split: Option.bind_splits)
  from first_at_SomeD [OF f] obtain a b where ab: "s1 = a @ b" "tail3 b = Some r" by blast
  from tail3_ends_with_match5 [OF ab(2)] obtain a' b' y where "b = a' @ b'" "match5 b' = Some y"
    by blast
  with l ab(1) have "s = (''// Wait for iframe to load'' @ a @ a') @ b' \<and> match5 b' = Some y"
    by (simp add: lit_Some_iff)
  then show ?thesis by blast
qed

lemma no_match5_no_contextual:
  assumes "first_at match5 Z = None"
  shows "first_at match3 Z = None \<and> first_at match4 Z = None"
proof -
  have "first_at m Z = None"
    if h: "\<And>s x. m s = Some x \<Longrightarrow> \<exists>a b y. s = a @ b \<and> match5 b = Some y" for m :: "string \<Rightarrow> 'a option"
  proof (cases "first_at m Z")
    case (Some r)
    from first_at_SomeD [OF Some] obtain a b where "Z = a @ b" "m b = Some r" by blast
    moreover from h [OF this(2)] obtain a' b' y where "b = a' @ b'" "match5 b' = Some y" by blast
    ultimately have "Z = (a @ a') @ b'" "match5 b' \<noteq> None" by simp_all
    with first_at_None_suffix [of match5 "a @ a'" b'] assms show ?thesis by simp
  qed simp
  from this [of match3, OF match3_ends_with_match5] this [of match4, OF match4_ends_with_match5]
  show ?thesis by simp
qed

lemma fst_rewrite:
  "fst (rewrite T) = fst (subn match5 repl5 (fst (subn match4 repl4 (fst (subn match3 repl3
     (fst (fix2 (fst (subn match1 repl1 T)))))))))"
  by (simp add: rewrite_def split: prod.splits)



















lemma isin_append_mid: "isin p (a @ p @ b)"
  by (auto simp: isin_iff)

lemma isin_suffix: "isin p b \<Longrightarrow> isin p (a @ b)"
  by (metis append.assoc isin_iff)

lemma first_at_None_by_isin:
  assumes "\<And>s x. m s = Some x \<Longrightarrow> isin p s" and "\<not> isin p T"
  shows "first_at m T = None"
proof (cases "first_at m T")
  case (Some r)
  from first_at_SomeD [OF Some] obtain a b where "T = a @ b" "m b = Some r" by blast
  with assms(1) [of b r] have "isin p T" by (simp add: isin_suffix)
  with assms(2) show ?thesis by simp
qed simp







lemma lit_phrase_straddle:
  assumes "lit ''// Wait for iframe to load'' (p @ CHR ''/'' # CHR ''/'' # Z) = Some r" "p \<noteq> []"
  shows "startswith p ''// Wait for iframe to load''"
proof -
  from assms(1) have "p @ CHR ''/'' # CHR ''/'' # Z = ''// Wait for iframe to load'' @ r"
    by (simp add: lit_Some_iff)
  then have "\<exists>r'. p = ''// Wait for iframe to load'' @ r'"
    using assms(2) by (auto simp: append_eq_Cons_conv)
  then show ?thesis by (auto simp: startswith_def)
qed

lemma not_isin_Cons: "\<not> isin p (x # xs) \<Longrightarrow> \<not> startswith (x # xs) p \<and> \<not> isin p xs"
  by simp

lemma subn_dead_prefix:
  assumes "\<And>p. p \<noteq> [] \<Longrightarrow> \<not> startswith p ph \<Longrightarrow> m (p @ X) = None" "\<not> isin ph P"
  shows "subn m r (P @ X) = (P @ fst (subn m r X), snd (subn m r X))"
  using assms(2)
proof (induction P)
  case Nil
  show ?case by simp
next
  case (Cons x P)
  from not_isin_Cons [OF Cons.prems] have a: "\<not> startswith (x # P) ph" and b: "\<not> isin ph P"
    by simp_all
  have "m ((x # P) @ X) = None" by (rule assms(1) [OF _ a]) simp
  then have "m (x # P @ X) = None" by simp
  then show ?case using Cons.IH [OF b] by (simp add: subn_None del: subn.simps)
qed

lemma tail3_SomeD:
  assumes "tail3 t = Some (t2, g2, rest)"
  shows "\<exists>ws d. t = nl @ ws @ ''await '' @ g2 @ ''.waitForTimeout('' @ d @ '')'' @ rest
           \<and> ws \<noteq> [] \<and> list_all is_space ws \<and> g2 \<noteq> [] \<and> list_all is_word g2
           \<and> d \<noteq> [] \<and> list_all is_digit d"
proof -
  from assms obtain t1 ws t3 t4 t5 d t6 where
    "lit nl t = Some t1" "plus is_space t1 = Some (ws, t2)" "lit ''await '' t2 = Some t3"
    "plus is_word t3 = Some (g2, t4)" "lit ''.waitForTimeout('' t4 = Some t5"
    "plus is_digit t5 = Some (d, t6)" "lit '')'' t6 = Some rest"
    by (auto simp: tail3_def split: Option.bind_splits)
  then have "t = nl @ ws @ ''await '' @ g2 @ ''.waitForTimeout('' @ d @ '')'' @ rest"
    and "ws \<noteq> []" "list_all is_space ws" "g2 \<noteq> []" "list_all is_word g2"
      "d \<noteq> []" "list_all is_digit d"
    by (auto simp: lit_Some_iff dest!: plus_SomeD)
  then show ?thesis by blast
qed

lemma match3_SomeD:
  assumes "match3 s = Some ((g1, g2), rest)"
  shows "\<exists>mid ws d. s = ''// Wait for iframe to load'' @ mid @ nl @ ws @ ''await '' @ g2
             @ ''.waitForTimeout('' @ d @ '')'' @ rest
           \<and> ws \<noteq> [] \<and> list_all is_space ws \<and> g2 \<noteq> [] \<and> list_all is_word g2
           \<and> d \<noteq> [] \<and> list_all is_digit d"
proof -
  from assms obtain s1 t2 where l: "lit ''// Wait for iframe to load'' s = Some s1"
    and f: "first_at tail3 s1 = Some (t2, g2, rest)"
    by (auto simp: match3_def split: Option.bind_splits)
  from first_at_SomeD [OF f] obtain mid b where mb: "s1 = mid @ b" "tail3 b = Some (t2, g2, rest)"
    by blast
  from tail3_SomeD [OF mb(2)] obtain ws d where
    b: "b = nl @ ws @ ''await '' @ g2 @ ''.waitForTimeout('' @ d @ '')'' @ rest"
    and c: "ws \<noteq> []" "list_all is_space ws" "g2 \<noteq> []" "list_all is_word g2"
      "d \<noteq> []" "list_all is_digit d"
    by blast
  from l mb(1) b have "s = ''// Wait for iframe to load'' @ mid @ nl @ ws @ ''await '' @ g2
             @ ''.waitForTimeout('' @ d @ '')'' @ rest"
    by (simp add: lit_Some_iff)
  with c show ?thesis by blast
qed

lemma match3_has_phrase: "match3 s = Some x \<Longrightarrow> isin ''// Wait for iframe to load'' s"
proof -
  assume "match3 s = Some x"
  then obtain s1 where "lit ''// Wait for iframe to load'' s = Some s1"
    by (auto simp: match3_def split: Option.bind_splits)
  then have "s = [] @ ''// Wait for iframe to load'' @ s1" by (simp add: lit_Some_iff)
  then show ?thesis by (simp only: isin_append_mid)
qed

lemma match3_I:
  assumes "CHR 0x0A \<notin> set c" "ws \<noteq> []" "list_all is_space ws" "w \<noteq> []" "list_all is_word w"
    "d \<noteq> []" "list_all is_digit d"
  shows "match3 (''// Wait for iframe to load'' @ c @ nl @ ws @ ''await '' @ w @ ''.waitForTimeout('' @ d @ '')'' @ S)
         = Some ((''// Wait for iframe to load'' @ c @ nl @ ws, w), S)"
proof -
  define W where "W = ''await '' @ w @ ''.waitForTimeout('' @ d @ '')'' @ S"
  define P where "P = ''// Wait for iframe to load'' @ c @ nl @ ws"
  define T where "T = P @ W"
  have t3: "tail3 (nl @ ws @ W) = Some (W, w, S)"
    unfolding W_def using tail3_I [OF assms(2-7), of S] by simp
  have fa: "first_at tail3 (c @ nl @ ws @ W) = Some (W, w, S)"
    by (rule first_at_tail3_line [OF assms(1) t3])
  have "T = ''// Wait for iframe to load'' @ (c @ nl @ ws @ W)"
    unfolding T_def P_def by simp
  then have l: "lit ''// Wait for iframe to load'' T = Some (c @ nl @ ws @ W)"
    by (simp only: lit_append)
  have tk: "take (length T - length W) T = P"
    unfolding T_def by (rule take_prefix_len)
  have "match3 T = Some ((P, w), S)"
    by (simp only: match3_def l fa tk Option.bind.simps prod.case)
  then show ?thesis unfolding T_def P_def W_def by simp
qed

lemma match3_dead_prefix:
  assumes "p \<noteq> []" "\<not> startswith p ''// Wait for iframe to load''"
  shows "match3 (p @ ''// Wait for iframe to load'' @ X) = None"
proof (cases "lit ''// Wait for iframe to load'' (p @ ''// Wait for iframe to load'' @ X)")
  case None
  then show ?thesis by (simp add: match3_def)
next
  case (Some r)
  then have "lit ''// Wait for iframe to load'' (p @ CHR ''/'' # CHR ''/'' # ('' Wait for iframe to load'' @ X)) = Some r"
    by simp
  from lit_phrase_straddle [OF this assms(1)] assms(2) show ?thesis by simp
qed

lemma subn3_in_context:
  assumes "\<not> isin ''// Wait for iframe to load'' P"
    "CHR 0x0A \<notin> set c" "ws \<noteq> []" "list_all is_space ws" "w \<noteq> []" "list_all is_word w"
    "d \<noteq> []" "list_all is_digit d"
  shows "subn match3 repl3
           (P @ ''// Wait for iframe to load'' @ c @ nl @ ws @ ''await '' @ w @ ''.waitForTimeout('' @ d @ '')'' @ S)
         = (P @ ''// Wait for iframe to load'' @ c @ nl @ ws @ ''await '' @ w
              @ ''.waitForSelector('' @ sq @ ''#absmartly-sidebar-iframe'' @ sq @ '', { state: ''
              @ sq @ ''attached'' @ sq @ '', timeout: 5000 }).catch(() => {})''
              @ fst (subn match3 repl3 S), Suc (snd (subn match3 repl3 S)))"
proof -
  define X where "X = c @ nl @ ws @ ''await '' @ w @ ''.waitForTimeout('' @ d @ '')'' @ S"
  define C where "C = ''// Wait for iframe to load'' @ X"
  have m: "match3 C = Some ((''// Wait for iframe to load'' @ c @ nl @ ws, w), S)"
    unfolding C_def X_def using match3_I [OF assms(2-8), of S] by simp
  obtain x xs where cx: "C = x # xs" unfolding C_def by simp
  have len: "length S \<le> length xs"
  proof -
    have "length C = Suc (length xs)" using cx by simp
    moreover have "length S < length C" unfolding C_def X_def by simp
    ultimately show ?thesis by simp
  qed
  have sc: "subn match3 repl3 C = (repl3 (''// Wait for iframe to load'' @ c @ nl @ ws, w)
               @ fst (subn match3 repl3 S), Suc (snd (subn match3 repl3 S)))"
    unfolding cx by (rule subn_Some [where m = match3, OF m [unfolded cx] len])
  have "subn match3 repl3 (P @ C) = (P @ fst (subn match3 repl3 C), snd (subn match3 repl3 C))"
    unfolding C_def
    by (rule subn_dead_prefix [where ph = "''// Wait for iframe to load''", OF _ assms(1)])
       (rule match3_dead_prefix)
  then have "subn match3 repl3 (P @ C) = (P @ repl3 (''// Wait for iframe to load'' @ c @ nl @ ws, w)
               @ fst (subn match3 repl3 S), Suc (snd (subn match3 repl3 S)))"
    by (simp only: sc fst_conv snd_conv)
  then show ?thesis unfolding C_def X_def by (simp add: repl3_def)
qed

lemma subn3_only_after_phrase:
  assumes "snd (subn match3 repl3 T) \<noteq> 0"
  shows "\<exists>a mid ws w d rest. T = a @ ''// Wait for iframe to load'' @ mid @ nl @ ws @ ''await '' @ w
             @ ''.waitForTimeout('' @ d @ '')'' @ rest
           \<and> ws \<noteq> [] \<and> list_all is_space ws \<and> w \<noteq> [] \<and> list_all is_word w
           \<and> d \<noteq> [] \<and> list_all is_digit d"
proof (cases "first_at match3 T")
  case None
  with subn_no_match [OF None, of repl3] assms show ?thesis by simp
next
  case (Some r)
  from first_at_SomeD [OF Some] obtain a b where ab: "T = a @ b" "match3 b = Some r" by blast
  obtain g1 g2 rest where "r = ((g1, g2), rest)" by (cases r) auto
  with ab(2) match3_SomeD [of b g1 g2 rest] obtain mid ws d where
    "b = ''// Wait for iframe to load'' @ mid @ nl @ ws @ ''await '' @ g2
             @ ''.waitForTimeout('' @ d @ '')'' @ rest"
    "ws \<noteq> []" "list_all is_space ws" "g2 \<noteq> []" "list_all is_word g2" "d \<noteq> []" "list_all is_digit d"
    by blast
  with ab(1) show ?thesis by blast
qed





















































section \<open>The templates are accepted and the library calls raise nothing\<close>

text \<open>
  Each template of the script parses, with the number of groups of its pattern, and
  expands on every match to the replacement text of the rule; so each call of
  \<^verbatim>\<open>re.subn\<close> returns what \<open>subn\<close> computes.  The last lemma shows the error outcomes
  at work on templates the script does not have.
\<close>

lemma bind_err_Inr [simp]: "bind_err (Inr a) f = f a"
  by (simp add: bind_err_def)

lemma bind_err_Inl [simp]: "bind_err (Inl e) f = Inl e"
  by (simp add: bind_err_def)

lemma parse_template1: "\<exists>items. parse_template 1 template1 = Inr items
    \<and> (\<forall>w g1. expand items \<lparr>whole = w, captured = groups1 g1\<rparr> = Inr (repl1 g1))"
  by (simp add: template1_def escape_def is_digit_def addgroup_def digit_val_def expand_def groups1_def repl1_def)

lemma parse_template2: "\<exists>items. parse_template 2 template2 = Inr items
    \<and> (\<forall>w g. expand items \<lparr>whole = w, captured = groups2 g\<rparr> = Inr (repl2 g))"
  by (simp add: template2_def escape_def is_digit_def addgroup_def digit_val_def expand_def groups2_def repl2_def
      is_ascii_letter_def split: prod.splits)

lemma parse_template3: "\<exists>items. parse_template 2 template3 = Inr items
    \<and> (\<forall>w g. expand items \<lparr>whole = w, captured = groups2 g\<rparr> = Inr (repl3 g))"
  by (simp add: template3_def escape_def is_digit_def addgroup_def digit_val_def expand_def groups2_def repl3_def
      is_ascii_letter_def split: prod.splits)

lemma parse_template4: "\<exists>items. parse_template 3 template4 = Inr items
    \<and> (\<forall>w g. expand items \<lparr>whole = w, captured = groups3 g\<rparr> = Inr (repl4 g))"
  by (simp add: template4_def escape_def is_digit_def addgroup_def digit_val_def expand_def groups3_def repl4_def
      is_ascii_letter_def split: prod.splits)

lemma parse_template5: "\<exists>items. parse_template 2 template5 = Inr items
    \<and> (\<forall>w g. expand items \<lparr>whole = w, captured = groups2 g\<rparr> = Inr (repl5 g))"
  by (simp add: template5_def escape_def is_digit_def addgroup_def digit_val_def expand_def groups2_def repl5_def
      is_ascii_letter_def split: prod.splits)

lemma subn_items_total:
  assumes e: "\<And>w g. expand items \<lparr>whole = w, captured = gl g\<rparr> = Inr (r g)"
  shows "subn_items m gl items s = Inr (subn m r s)"
proof (induction s rule: length_induct)
  case (1 s)
  show ?case
  proof (cases s)
    case Nil
    then show ?thesis by (simp add: e split: option.splits)
  next
    case (Cons c cs)
    show ?thesis
    proof (cases "m (c # cs)")
      case None
      have "subn_items m gl items cs = Inr (subn m r cs)" using 1 Cons by simp
      with None Cons show ?thesis by (simp split: prod.splits)
    next
      case (Some a)
      obtain g rest where a: "a = (g, rest)" by (cases a)
      have i1: "subn_items m gl items cs = Inr (subn m r cs)" using 1 Cons by simp
      have i2: "length rest \<le> length cs \<Longrightarrow> subn_items m gl items rest = Inr (subn m r rest)"
        using 1 Cons by simp
      from Some a Cons i1 i2 show ?thesis by (simp add: e split: prod.splits)
    qed
  qed
qed

lemma re_subn_total:
  assumes "\<exists>items. parse_template groups template = Inr items
    \<and> (\<forall>w g. expand items \<lparr>whole = w, captured = gl g\<rparr> = Inr (r g))"
  shows "re_subn groups m gl template s = Inr (subn m r s)"
proof -
  from assms obtain items where p: "parse_template groups template = Inr items"
    and e: "\<And>w g. expand items \<lparr>whole = w, captured = gl g\<rparr> = Inr (r g)" by blast
  show ?thesis by (simp add: re_subn_def p subn_items_total [where r = r, OF e])
qed

lemma re_subn1: "re_subn 1 match1 groups1 template1 s = Inr (subn match1 repl1 s)"
  by (rule re_subn_total [OF parse_template1])

lemma re_subn2: "re_subn 2 match2 groups2 template2 s = Inr (subn match2 repl2 s)"
  by (rule re_subn_total [OF parse_template2])

lemma re_subn3: "re_subn 2 match3 groups2 template3 s = Inr (subn match3 repl3 s)"
  by (rule re_subn_total [OF parse_template3])

lemma re_subn4: "re_subn 3 match4 groups3 template4 s = Inr (subn match4 repl4 s)"
  by (rule re_subn_total [OF parse_template4])

lemma re_subn5: "re_subn 2 match5 groups2 template5 s = Inr (subn match5 repl5 s)"
  by (rule re_subn_total [OF parse_template5])

lemma fix2_line_checked_total: "fix2_line_checked line = Inr (fix2_line line)"
  unfolding fix2_line_checked_def fix2_line_def re_subn2
  by (simp add: group_def groups2_def split: option.splits prod.splits)

lemma fix2_lines_checked_total: "fix2_lines_checked ls = Inr (fix2_lines ls)"
  by (induction ls) (simp_all add: fix2_line_checked_total split: prod.splits)

lemma fix2_checked_total: "fix2_checked content = Inr (fix2 content)"
  by (simp add: fix2_checked_def fix2_def fix2_lines_checked_total split: prod.splits)

lemma rewrite_checked_total: "rewrite_checked content = Inr (rewrite content)"
  unfolding rewrite_checked_def rewrite_def re_subn1 re_subn3 re_subn4 re_subn5
  by (simp add: fix2_checked_total split: prod.splits)

lemma parse_template_rejects:
  "parse_template 1 (''await '' @ bs @ ''2'') = Inl ReError
   \<and> parse_template 1 (''await '' @ bs @ ''w'') = Inl ReError
   \<and> parse_template 1 (''await '' @ bs) = Inl ReError
   \<and> parse_template 1 (bs @ ''g<name>'') = Inl IndexError
   \<and> re_subn 1 match1 groups1 (''await '' @ bs @ ''2'') ''text'' = Inl ReError"
  by (simp add: re_subn_def escape_def is_digit_def addgroup_def digit_val_def is_ascii_letter_def
      isidentifier_def is_xid_start_def is_xid_continue_def)

section \<open>Evaluations of the engine\<close>

text \<open>
  C2.  The counter is meant to be the number of substitutions made.  On the line
  \<^verbatim>\<open>await a.goto(x); await b.goto(y)\<close> rule 2 rewrites both calls, two
  substitutions, and the engine returns one: rule 2 adds one per line, where the four
  other rules add the number reported by \<^verbatim>\<open>re.subn\<close>.
\<close>

theorem rewrite_counts_lines_not_substitutions:
  "rewrite ''await a.goto(x); await b.goto(y)'' =
     (''await a.goto(x, { waitUntil: '' @ bs @ sq @ ''domcontentloaded'' @ bs @ sq
        @ '', timeout: 10000 }); await b.goto(y, { waitUntil: '' @ bs @ sq
        @ ''domcontentloaded'' @ bs @ sq @ '', timeout: 10000 })'', 1)
   \<and> performed ''await a.goto(x); await b.goto(y)'' = 2"
  by code_simp

text \<open>
  C4.  A file whose text holds \<^verbatim>\<open>networkidle\<close> and not \<^verbatim>\<open>waitForTimeout\<close> is
  skipped by the pre-filter, because the second \<^verbatim>\<open>f.read()\<close> returns the empty text;
  \<^verbatim>\<open>main\<close> leaves it as it is and counts nothing, although the engine has one change
  to make in it.
\<close>

theorem prefilter_skips_networkidle_file:
  "isin ''networkidle'' (''await page.waitForLoadState('' @ sq @ ''networkidle'' @ sq @ '')'')
   \<and> prefilter_skips \<lparr>data = Text (''await page.waitForLoadState('' @ sq @ ''networkidle'' @ sq @ '')''), pos = 0\<rparr>
       = Inr True
   \<and> main_loop [''a.spec.ts'' \<mapsto> (Text (''await page.waitForLoadState('' @ sq @ ''networkidle'' @ sq @ '')''), True)]
         [''a.spec.ts''] 0 0
       = Inr ([''a.spec.ts'' \<mapsto> (Text (''await page.waitForLoadState('' @ sq @ ''networkidle'' @ sq @ '')''), True)], 0, 0)
   \<and> snd (rewrite (''await page.waitForLoadState('' @ sq @ ''networkidle'' @ sq @ '')'')) = 1"
  by (simp add: prefilter_skips_def read_def open_r_def startswith_def) code_simp

text \<open>
  C5.  On \<^verbatim>\<open>await page.goto('https://x')\<close> rule 2 adds the options argument and counts
  one, but the text it inserts is \<^verbatim>\<open>{ waitUntil: \'domcontentloaded\', timeout: 10000 }\<close>,
  with a backslash before each quote, not the \<^verbatim>\<open>'domcontentloaded'\<close> of the specification.
  A call that already has an options object is left unchanged and counts zero.
\<close>

theorem rewrite_goto_emits_backslashes:
  "rewrite (''await page.goto('' @ sq @ ''https://x'' @ sq @ '')'') =
     (''await page.goto('' @ sq @ ''https://x'' @ sq @ '', { waitUntil: '' @ bs @ sq
        @ ''domcontentloaded'' @ bs @ sq @ '', timeout: 10000 })'', 1)
   \<and> fst (rewrite (''await page.goto('' @ sq @ ''https://x'' @ sq @ '')'')) \<noteq>
       ''await page.goto('' @ sq @ ''https://x'' @ sq @ '', { waitUntil: '' @ sq
        @ ''domcontentloaded'' @ sq @ '', timeout: 10000 })''
   \<and> rewrite (''await page.goto('' @ sq @ ''https://x'' @ sq @ '', { waitUntil: '' @ sq
        @ ''load'' @ sq @ '' })'') =
     (''await page.goto('' @ sq @ ''https://x'' @ sq @ '', { waitUntil: '' @ sq
        @ ''load'' @ sq @ '' })'', 0)"
  by code_simp

section \<open>General properties of the engine\<close>




text \<open>
  C8.  A fixed-duration wait standing alone, \<^verbatim>\<open>await w.waitForTimeout(d)\<close> for a name
  \<open>w\<close> and a number \<open>d\<close>, is left alone by rules 1 to 4 and rewritten by rule 5 to the
  review comment, a new line, four spaces and a wait for the document's ready state
  whose timeout is \<open>d\<close> itself, with \<^verbatim>\<open>.catch(() => {})\<close>; the counter is one.
\<close>

theorem rewrite_standalone_wait:
  assumes "w \<noteq> []" "list_all is_word w" "d \<noteq> []" "list_all is_digit d"
  shows "rewrite (''await '' @ w @ ''.waitForTimeout('' @ d @ '')'') =
     (''// TODO: Replace timeout with specific element wait'' @ nl @ ''    await '' @ w
        @ ''.waitForFunction(() => document.readyState === '' @ sq @ ''complete'' @ sq
        @ '', { timeout: '' @ d @ '' }).catch(() => {})'', 1)"
proof -
  define T where "T = ''await '' @ w @ ''.waitForTimeout('' @ d @ '')''"
  have cw: "\<forall>c\<in>set w. is_word c" and cd: "\<forall>c\<in>set d. is_word c"
    using assms by (auto simp: list_all_iff dest: is_digit_word)
  have q: "\<forall>c\<in>set T. \<not> is_quote c" unfolding T_def using cw cd by (auto simp: is_quote_def)
  have sl: "\<forall>c\<in>set T. \<not> c = CHR ''/''" unfolding T_def using cw cd by auto
  have nn: "\<forall>c\<in>set T. \<not> c = CHR 0x0A" unfolding T_def using cw cd by auto
  have r1: "subn match1 repl1 T = (T, 0)"
    by (rule subn_no_match, rule first_at_None_by_char [OF match1_has_quote q])
  have r3: "subn match3 repl3 T = (T, 0)"
    by (rule subn_no_match, rule first_at_None_by_char [OF match3_has_slash sl])
  have r4: "subn match4 repl4 T = (T, 0)"
    by (rule subn_no_match, rule first_at_None_by_char [OF match4_has_nl nn])
  have "CHR 0x0A \<notin> set T" using nn by blast
  then have sp: "split_nl T = [T]" by (rule split_nl_single)
  have "\<not> isin ''.goto('' T"
    unfolding T_def by (rule wait_no_goto [OF assms(2) assms(4)])
  then have "fix2_line T = (T, 0)"
    by (simp only: fix2_line_def simp_thms if_False)
  then have r2: "fix2 T = (T, 0)"
    by (simp only: fix2_def sp fix2_lines.simps prod.case join_nl.simps add_0_right)
  have m5: "match5 T = Some ((w, d), [])"
    unfolding T_def using match5_I [OF assms, of "[]"] by simp
  have e5: "match5 [] = None" by (simp add: match5_def)
  obtain c cs where tc: "T = c # cs" unfolding T_def by simp
  have r5: "subn match5 repl5 T = (repl5 (w, d), 1)"
    using m5 e5 unfolding tc by simp
  have "rewrite T = (repl5 (w, d), 1)"
    by (simp only: rewrite_def r1 r2 r3 r4 r5 prod.case add_0 add_0_right)
  then show ?thesis unfolding T_def by (simp add: repl5_def)
qed

theorem rewrite_standalone_wait_witness:
  "''page'' \<noteq> [] \<and> list_all is_word ''page'' \<and> ''1000'' \<noteq> [] \<and> list_all is_digit ''1000''
   \<and> rewrite ''await page.waitForTimeout(1000)'' =
     (''// TODO: Replace timeout with specific element wait'' @ nl
        @ ''    await page.waitForFunction(() => document.readyState === '' @ sq @ ''complete''
        @ sq @ '', { timeout: 1000 }).catch(() => {})'', 1)"
proof -
  have h: "''page'' \<noteq> []" "list_all is_word ''page''" "''1000'' \<noteq> []" "list_all is_digit ''1000''"
    by (simp_all add: is_word_def is_digit_def)
  show ?thesis using h rewrite_standalone_wait [OF h] by simp
qed

text \<open>
  C9.  The engine raises no error: on every text whatever, the engine with the error
  outcomes of its library calls (each template parsed and expanded as \<^verbatim>\<open>re\<close> does it,
  \<^verbatim>\<open>match.group(2)\<close> read from the match) returns a text and a counter, those of
  \<open>rewrite\<close>.  \<open>rewrite\<close> itself is a total function, the scan of \<open>subn\<close> ending because
  each step goes on with a shorter text.  Reading and writing the file, around the
  engine, are what can fail in \<^verbatim>\<open>fix_file\<close>.
\<close>

theorem rewrite_checked_never_raises:
  "rewrite_checked T = Inr (rewrite T)"
  by (rule rewrite_checked_total)



section \<open>Rule order, rule 3's context and a second pass\<close>

text \<open>
  C6.  Rule 3 and the phrase \<^verbatim>\<open>// Wait for iframe to load\<close>, in three parts.
  First, in a text whose part \<open>P\<close> before the phrase does not contain the phrase: after the
  phrase, the rest \<open>c\<close> of the comment line, a newline and white space \<open>ws\<close> (at least one
  character), the wait \<^verbatim>\<open>await w.waitForTimeout(d)\<close> becomes
  \<^verbatim>\<open>await w.waitForSelector('#absmartly-sidebar-iframe', { state: 'attached', timeout: 5000 }).catch(() => {})\<close>,
  the text before it stays as it is, rule 3 goes on in the text \<open>S\<close> after the wait, and
  the replacement is counted.
  Second, whenever rule 3 replaces anything in a text \<open>T\<close>, the phrase occurs in \<open>T\<close> and,
  somewhere after it, a newline and at least one character of white space stand
  directly before a wait \<^verbatim>\<open>await w'.waitForTimeout(d')\<close>.
  Third, rule 3 returns a text \<open>U\<close> without the phrase unchanged and counts nothing.
\<close>

theorem rule3_replaces_after_phrase:
  "(\<not> isin ''// Wait for iframe to load'' P \<and> CHR 0x0A \<notin> set c \<and> ws \<noteq> [] \<and> list_all is_space ws
      \<and> w \<noteq> [] \<and> list_all is_word w \<and> d \<noteq> [] \<and> list_all is_digit d
    \<longrightarrow> subn match3 repl3
           (P @ ''// Wait for iframe to load'' @ c @ nl @ ws @ ''await '' @ w @ ''.waitForTimeout('' @ d @ '')'' @ S)
         = (P @ ''// Wait for iframe to load'' @ c @ nl @ ws @ ''await '' @ w
              @ ''.waitForSelector('' @ sq @ ''#absmartly-sidebar-iframe'' @ sq @ '', { state: ''
              @ sq @ ''attached'' @ sq @ '', timeout: 5000 }).catch(() => {})''
              @ fst (subn match3 repl3 S), Suc (snd (subn match3 repl3 S))))
   \<and> (snd (subn match3 repl3 T) \<noteq> 0
    \<longrightarrow> (\<exists>a mid ws' w' d' rest.
           T = a @ ''// Wait for iframe to load'' @ mid @ nl @ ws' @ ''await '' @ w'
                 @ ''.waitForTimeout('' @ d' @ '')'' @ rest
           \<and> ws' \<noteq> [] \<and> list_all is_space ws' \<and> w' \<noteq> [] \<and> list_all is_word w'
           \<and> d' \<noteq> [] \<and> list_all is_digit d'))
   \<and> (\<not> isin ''// Wait for iframe to load'' U \<longrightarrow> subn match3 repl3 U = (U, 0))"
proof (intro conjI impI)
  assume "\<not> isin ''// Wait for iframe to load'' P \<and> CHR 0x0A \<notin> set c \<and> ws \<noteq> [] \<and> list_all is_space ws
      \<and> w \<noteq> [] \<and> list_all is_word w \<and> d \<noteq> [] \<and> list_all is_digit d"
  then show "subn match3 repl3
           (P @ ''// Wait for iframe to load'' @ c @ nl @ ws @ ''await '' @ w @ ''.waitForTimeout('' @ d @ '')'' @ S)
         = (P @ ''// Wait for iframe to load'' @ c @ nl @ ws @ ''await '' @ w
              @ ''.waitForSelector('' @ sq @ ''#absmartly-sidebar-iframe'' @ sq @ '', { state: ''
              @ sq @ ''attached'' @ sq @ '', timeout: 5000 }).catch(() => {})''
              @ fst (subn match3 repl3 S), Suc (snd (subn match3 repl3 S)))"
    by (intro subn3_in_context) simp_all
next
  assume "snd (subn match3 repl3 T) \<noteq> 0"
  then show "\<exists>a mid ws' w' d' rest.
           T = a @ ''// Wait for iframe to load'' @ mid @ nl @ ws' @ ''await '' @ w'
                 @ ''.waitForTimeout('' @ d' @ '')'' @ rest
           \<and> ws' \<noteq> [] \<and> list_all is_space ws' \<and> w' \<noteq> [] \<and> list_all is_word w'
           \<and> d' \<noteq> [] \<and> list_all is_digit d'"
    by (rule subn3_only_after_phrase)
next
  assume u: "\<not> isin ''// Wait for iframe to load'' U"
  have "first_at match3 U = None"
    by (rule first_at_None_by_isin [where p = "''// Wait for iframe to load''", OF match3_has_phrase u])
  then show "subn match3 repl3 U = (U, 0)" by (rule subn_no_match)
qed

theorem rule3_replaces_after_phrase_witness:
  "\<not> isin ''// Wait for iframe to load'' (''setup();'' @ nl)
   \<and> CHR 0x0A \<notin> set '' (sidebar)'' \<and> ''  '' \<noteq> [] \<and> list_all is_space ''  '' \<and> ''page'' \<noteq> []
   \<and> list_all is_word ''page'' \<and> ''500'' \<noteq> [] \<and> list_all is_digit ''500''
   \<and> subn match3 repl3 (''setup();'' @ nl @ ''// Wait for iframe to load (sidebar)'' @ nl
         @ ''  await page.waitForTimeout(500);'' @ nl @ ''next();'')
       = (''setup();'' @ nl @ ''// Wait for iframe to load (sidebar)'' @ nl
            @ ''  await page.waitForSelector('' @ sq @ ''#absmartly-sidebar-iframe'' @ sq
            @ '', { state: '' @ sq @ ''attached'' @ sq @ '', timeout: 5000 }).catch(() => {});''
            @ nl @ ''next();'', 1)
   \<and> snd (subn match3 repl3 (''// Wait for iframe to load'' @ nl @ '' await p.waitForTimeout(5)'')) \<noteq> 0
   \<and> (\<exists>a mid ws' w' d' rest.
           ''// Wait for iframe to load'' @ nl @ '' await p.waitForTimeout(5)''
             = a @ ''// Wait for iframe to load'' @ mid @ nl @ ws' @ ''await '' @ w'
                 @ ''.waitForTimeout('' @ d' @ '')'' @ rest
           \<and> ws' \<noteq> [] \<and> list_all is_space ws' \<and> w' \<noteq> [] \<and> list_all is_word w'
           \<and> d' \<noteq> [] \<and> list_all is_digit d')
   \<and> \<not> isin ''// Wait for iframe to load'' (''// Wait for page'' @ nl @ ''  await p.waitForTimeout(5)'')
   \<and> subn match3 repl3 (''// Wait for page'' @ nl @ ''  await p.waitForTimeout(5)'')
       = (''// Wait for page'' @ nl @ ''  await p.waitForTimeout(5)'', 0)"
proof -
  have h1: "\<not> isin ''// Wait for iframe to load'' (''setup();'' @ nl) \<and> CHR 0x0A \<notin> set '' (sidebar)''
      \<and> ''  '' \<noteq> [] \<and> list_all is_space ''  '' \<and> ''page'' \<noteq> [] \<and> list_all is_word ''page''
      \<and> ''500'' \<noteq> [] \<and> list_all is_digit ''500''"
    by (simp add: is_word_def is_space_def is_digit_def startswith_def)
  have h2: "snd (subn match3 repl3 (''// Wait for iframe to load'' @ nl @ '' await p.waitForTimeout(5)'')) \<noteq> 0"
    by code_simp
  have h3: "\<not> isin ''// Wait for iframe to load'' (''// Wait for page'' @ nl @ ''  await p.waitForTimeout(5)'')"
    by code_simp
  have s: "subn match3 repl3 (CHR '';'' # nl @ ''next();'') = (CHR '';'' # nl @ ''next();'', 0)"
    by code_simp
  note t = rule3_replaces_after_phrase [of "''setup();'' @ nl" "'' (sidebar)''" "''  ''" "''page''"
      "''500''" "CHR '';'' # nl @ ''next();''" "''// Wait for iframe to load'' @ nl @ '' await p.waitForTimeout(5)''"
      "''// Wait for page'' @ nl @ ''  await p.waitForTimeout(5)''"]
  from t h1 have raw: "subn match3 repl3
           ((''setup();'' @ nl) @ ''// Wait for iframe to load'' @ '' (sidebar)'' @ nl @ ''  '' @ ''await ''
              @ ''page'' @ ''.waitForTimeout('' @ ''500'' @ '')'' @ (CHR '';'' # nl @ ''next();''))
         = ((''setup();'' @ nl) @ ''// Wait for iframe to load'' @ '' (sidebar)'' @ nl @ ''  '' @ ''await '' @ ''page''
              @ ''.waitForSelector('' @ sq @ ''#absmartly-sidebar-iframe'' @ sq @ '', { state: ''
              @ sq @ ''attached'' @ sq @ '', timeout: 5000 }).catch(() => {})''
              @ fst (subn match3 repl3 (CHR '';'' # nl @ ''next();'')),
            Suc (snd (subn match3 repl3 (CHR '';'' # nl @ ''next();''))))"
    by blast
  have a: "subn match3 repl3 (''setup();'' @ nl @ ''// Wait for iframe to load (sidebar)'' @ nl
         @ ''  await page.waitForTimeout(500);'' @ nl @ ''next();'')
       = (''setup();'' @ nl @ ''// Wait for iframe to load (sidebar)'' @ nl
            @ ''  await page.waitForSelector('' @ sq @ ''#absmartly-sidebar-iframe'' @ sq
            @ '', { state: '' @ sq @ ''attached'' @ sq @ '', timeout: 5000 }).catch(() => {});''
            @ nl @ ''next();'', 1)"
    using raw [unfolded s fst_conv snd_conv]
    by (simp only: append.simps append_assoc One_nat_def)
  from t h2 have b: "\<exists>a mid ws' w' d' rest.
           ''// Wait for iframe to load'' @ nl @ '' await p.waitForTimeout(5)''
             = a @ ''// Wait for iframe to load'' @ mid @ nl @ ws' @ ''await '' @ w'
                 @ ''.waitForTimeout('' @ d' @ '')'' @ rest
           \<and> ws' \<noteq> [] \<and> list_all is_space ws' \<and> w' \<noteq> [] \<and> list_all is_word w'
           \<and> d' \<noteq> [] \<and> list_all is_digit d'"
    by blast
  from t h3 have c: "subn match3 repl3 (''// Wait for page'' @ nl @ ''  await p.waitForTimeout(5)'')
       = (''// Wait for page'' @ nl @ ''  await p.waitForTimeout(5)'', 0)"
    by blast
  from h1 h2 h3 a b c show ?thesis by blast
qed


text \<open>
  That only white space stands between the comment and the wait is neither necessary
  nor sufficient for rule 3.  With a
  line of code between the comment and the wait, so that more than white space
  intervenes, rule 3 still replaces the wait (its \<^verbatim>\<open>.*?\<close> runs under \<^verbatim>\<open>re.DOTALL\<close>);
  with only a newline between them, so that only white space intervenes, rule 3 does
  not replace it (the pattern wants white space after the newline).
\<close>

theorem rule3_context_counterexample:
  "\<not> list_all is_space (nl @ ''foo()'' @ nl @ ''  '')
   \<and> subn match3 repl3 (''// Wait for iframe to load'' @ nl @ ''foo()'' @ nl @ ''  await p.waitForTimeout(5)'')
       = (''// Wait for iframe to load'' @ nl @ ''foo()'' @ nl @ ''  await p.waitForSelector('' @ sq
            @ ''#absmartly-sidebar-iframe'' @ sq @ '', { state: '' @ sq @ ''attached'' @ sq
            @ '', timeout: 5000 }).catch(() => {})'', 1)
   \<and> list_all is_space nl
   \<and> subn match3 repl3 (''// Wait for iframe to load'' @ nl @ ''await p.waitForTimeout(5)'')
       = (''// Wait for iframe to load'' @ nl @ ''await p.waitForTimeout(5)'', 0)"
  by code_simp




text \<open>
  C1.  After one pass no text is left that rule 3, 4 or 5 matches, so a second pass
  changes the first pass's output only through rule 1 or rule 2: when rule 1 finds no
  match in it and rule 2 counts none of its lines, the second pass returns it as it is,
  with the counter at zero.
\<close>

theorem second_pass_needs_rule1_or_rule2:
  "first_at match3 (fst (rewrite T)) = None
   \<and> first_at match4 (fst (rewrite T)) = None
   \<and> first_at match5 (fst (rewrite T)) = None
   \<and> (first_at match1 (fst (rewrite T)) = None
        \<and> list_all (\<lambda>line. snd (fix2_line line) = 0) (split_nl (fst (rewrite T)))
      \<longrightarrow> rewrite (fst (rewrite T)) = (fst (rewrite T), 0))"
proof -
  have m5: "first_at match5 (fst (rewrite T)) = None"
    unfolding fst_rewrite by (rule subn5_output_clean)
  note m34 = no_match5_no_contextual [OF m5]
  have "rewrite (fst (rewrite T)) = (fst (rewrite T), 0)"
    if m1: "first_at match1 (fst (rewrite T)) = None"
      and l2: "list_all (\<lambda>line. snd (fix2_line line) = 0) (split_nl (fst (rewrite T)))"
  proof -
    have f2: "fix2 (fst (rewrite T)) = (fst (rewrite T), 0)"
      by (simp add: fix2_def fix2_lines_unchanged [OF l2] join_split)
    show ?thesis
      by (subst rewrite_def)
        (simp add: subn_no_match [OF m1] f2 subn_no_match [OF conjunct1 [OF m34]]
          subn_no_match [OF conjunct2 [OF m34]] subn_no_match [OF m5])
  qed
  with m5 m34 show ?thesis by blast
qed

theorem second_pass_witness:
  "first_at match1 (fst (rewrite ''await page.waitForTimeout(1000)'')) = None
   \<and> list_all (\<lambda>line. snd (fix2_line line) = 0) (split_nl (fst (rewrite ''await page.waitForTimeout(1000)'')))
   \<and> rewrite (fst (rewrite ''await page.waitForTimeout(1000)''))
       = (fst (rewrite ''await page.waitForTimeout(1000)''), 0)"
proof -
  have h: "first_at match1 (fst (rewrite ''await page.waitForTimeout(1000)'')) = None
     \<and> list_all (\<lambda>line. snd (fix2_line line) = 0) (split_nl (fst (rewrite ''await page.waitForTimeout(1000)'')))"
    by code_simp
  show ?thesis
    using h second_pass_needs_rule1_or_rule2 [of "''await page.waitForTimeout(1000)''"] by blast
qed

text \<open>
  Rule 2 can fire in the second pass.  On the line below a trailing comma blocks it in
  the first pass; rule 5 then puts the wait, and the comma with it, on a line of its
  own, and in the second pass rule 2 rewrites the goto call.
\<close>

theorem rewrite_not_idempotent:
  "fst (rewrite (fst (rewrite ''await p.goto(x) await q.waitForTimeout(5),'')))
     \<noteq> fst (rewrite ''await p.goto(x) await q.waitForTimeout(5),'')
   \<and> snd (rewrite (fst (rewrite ''await p.goto(x) await q.waitForTimeout(5),''))) = 1"
  by code_simp

end
